theory Spec2Isabelle
  imports Complex_Main
begin

section \<open>Python string helpers used by the services\<close>

text \<open>
  Strings are \<open>char list\<close>; a character stands for a code point below 256. On that range
  Python's \<open>str.isspace\<close> holds for TAB, LF, VT, FF, CR, the separators 0x1C..0x1F, the
  space, NEL (0x85) and the no-break space (0xA0).
\<close>

definition isspace :: "char \<Rightarrow> bool" where
  "isspace c =
     (let n = (of_char c :: nat)
      in (9 \<le> n \<and> n \<le> 13) \<or> (28 \<le> n \<and> n \<le> 32) \<or> n = 133 \<or> n = 160)"

text \<open>\<open>str.split()\<close> without arguments: the maximal runs of non-whitespace characters.
  The second argument is the word being read.\<close>

fun split_aux :: "string \<Rightarrow> string \<Rightarrow> string list" where
  "split_aux [] cur = (if cur = [] then [] else [cur])"
| "split_aux (c # cs) cur =
     (if isspace c then (if cur = [] then split_aux cs [] else cur # split_aux cs [])
      else split_aux cs (cur @ [c]))"

definition split :: "string \<Rightarrow> string list" where
  "split s = split_aux s []"

text \<open>\<open>sep.join(xs)\<close>.\<close>

fun join :: "string \<Rightarrow> string list \<Rightarrow> string" where
  "join sep [] = []"
| "join sep [x] = x"
| "join sep (x # y # ys) = x @ sep @ join sep (y # ys)"

text \<open>\<open>str.strip()\<close> without arguments.\<close>

definition strip :: "string \<Rightarrow> string" where
  "strip s = rev (dropWhile isspace (rev (dropWhile isspace s)))"

text \<open>\<open>xs[i:j]\<close> for \<open>0 \<le> i \<le> j\<close>.\<close>

definition slice :: "'a list \<Rightarrow> nat \<Rightarrow> nat \<Rightarrow> 'a list" where
  "slice xs i j = take (j - i) (drop i xs)"

text \<open>\<open>xs[:n]\<close> and \<open>xs[-n:]\<close> for an integer \<open>n\<close>; a negative bound counts from the end.\<close>

definition slice_to :: "'a list \<Rightarrow> int \<Rightarrow> 'a list" where
  "slice_to xs n = (if 0 \<le> n then take (nat n) xs else take (length xs - nat (- n)) xs)"

definition last_n :: "'a list \<Rightarrow> nat \<Rightarrow> 'a list" where
  "last_n xs n = drop (length xs - n) xs"

text \<open>\<open>range(start, stop, step)\<close> for a positive step (Python raises on step 0; the
  callers here pass \<open>max(chunk_size, 1)\<close>).\<close>

function py_range :: "nat \<Rightarrow> nat \<Rightarrow> nat \<Rightarrow> nat list" where
  "py_range i stop step =
     (if 0 < step \<and> i < stop then i # py_range (i + step) stop step else [])"
  by pat_completeness auto
termination
  by (relation "measure (\<lambda>(i, stop, step). stop - i)") auto

declare py_range.simps [simp del]

text \<open>\<open>max(xs, key=f)\<close> and \<open>min(xs, key=f)\<close> on a non-empty list: the first element
  that is maximal (minimal) for the key.\<close>

fun max_by :: "('a \<Rightarrow> int) \<Rightarrow> 'a \<Rightarrow> 'a list \<Rightarrow> 'a" where
  "max_by f b [] = b"
| "max_by f b (x # xs) = max_by f (if f b < f x then x else b) xs"

fun min_by :: "('a \<Rightarrow> int) \<Rightarrow> 'a \<Rightarrow> 'a list \<Rightarrow> 'a" where
  "min_by f b [] = b"
| "min_by f b (x # xs) = min_by f (if f x < f b then x else b) xs"

text \<open>
  Floats are idealised as rationals. \<open>round(x, 1)\<close> rounds to the nearest multiple of
  one tenth, a tie going to the even neighbour; \<open>int(x)\<close> truncates towards zero.
\<close>

definition round_half_even :: "rat \<Rightarrow> int" where
  "round_half_even y =
     (let f = \<lfloor>y\<rfloor>; d = y - of_int f
      in if d < 1 / 2 then f else if 1 / 2 < d then f + 1 else if even f then f else f + 1)"

definition round1 :: "rat \<Rightarrow> rat" where
  "round1 x = of_int (round_half_even (x * 10)) / 10"

definition py_int :: "rat \<Rightarrow> int" where
  "py_int x = (if 0 \<le> x then \<lfloor>x\<rfloor> else \<lceil>x\<rceil>)"


section \<open>services/memory_manager.py\<close>

record QuestionRecord =
  question_number :: int
  question :: string
  category :: string
  answer :: "string option"
  score :: int
  feedback :: string
  skipped :: bool

text \<open>The resume summary is a dict; the engine reads three of its keys, each a list of
  strings when present.\<close>

record resume_data =
  skills :: "string list option"
  projects :: "string list option"
  experience :: "string list option"

record message =
  role :: string
  content :: string

record InterviewSession =
  session_id :: string
  resume_text :: string
  resume_summary :: resume_data
  questions :: "QuestionRecord list"
  current_question_index :: nat
  started :: bool
  finished :: bool
  start_time :: rat
  end_time :: rat
  conversation_history :: "message list"
  current_topic :: string
  topic_question_count :: int
  weak_streak :: int

type_synonym sessions = "string \<rightharpoonup> InterviewSession"

definition empty_resume :: resume_data where
  "empty_resume = \<lparr>skills = None, projects = None, experience = None\<rparr>"

definition new_session :: "string \<Rightarrow> InterviewSession" where
  "new_session sid =
     \<lparr>session_id = sid, resume_text = [], resume_summary = empty_resume, questions = [],
      current_question_index = 0, started = False, finished = False, start_time = 0,
      end_time = 0, conversation_history = [], current_topic = ''introduction'',
      topic_question_count = 0, weak_streak = 0\<rparr>"

text \<open>\<open>create_session\<close>: the identifier drawn from \<open>uuid4\<close> is an input; an existing
  entry under the same identifier is overwritten.\<close>

definition create_session :: "string \<Rightarrow> sessions \<Rightarrow> sessions \<times> string" where
  "create_session uuid st = (st(uuid \<mapsto> new_session uuid), uuid)"

definition get_session :: "sessions \<Rightarrow> string \<Rightarrow> InterviewSession option" where
  "get_session st sid = st sid"

text \<open>The keyword arguments of \<open>update_session\<close>: one constructor per attribute of the
  dataclass, and \<open>Unknown_key\<close> for a name the session does not have (skipped by
  \<open>hasattr\<close>).\<close>

datatype kwarg =
    Session_id string
  | Resume_text string
  | Resume_summary resume_data
  | Questions "QuestionRecord list"
  | Current_question_index nat
  | Started bool
  | Finished bool
  | Start_time rat
  | End_time rat
  | Conversation_history "message list"
  | Current_topic string
  | Topic_question_count int
  | Weak_streak int
  | Unknown_key

fun setattr :: "InterviewSession \<Rightarrow> kwarg \<Rightarrow> InterviewSession" where
  "setattr s (Session_id v) = s\<lparr>session_id := v\<rparr>"
| "setattr s (Resume_text v) = s\<lparr>resume_text := v\<rparr>"
| "setattr s (Resume_summary v) = s\<lparr>resume_summary := v\<rparr>"
| "setattr s (Questions v) = s\<lparr>questions := v\<rparr>"
| "setattr s (Current_question_index v) = s\<lparr>current_question_index := v\<rparr>"
| "setattr s (Started v) = s\<lparr>started := v\<rparr>"
| "setattr s (Finished v) = s\<lparr>finished := v\<rparr>"
| "setattr s (Start_time v) = s\<lparr>start_time := v\<rparr>"
| "setattr s (End_time v) = s\<lparr>end_time := v\<rparr>"
| "setattr s (Conversation_history v) = s\<lparr>conversation_history := v\<rparr>"
| "setattr s (Current_topic v) = s\<lparr>current_topic := v\<rparr>"
| "setattr s (Topic_question_count v) = s\<lparr>topic_question_count := v\<rparr>"
| "setattr s (Weak_streak v) = s\<lparr>weak_streak := v\<rparr>"
| "setattr s Unknown_key = s"

definition update_session :: "sessions \<Rightarrow> string \<Rightarrow> kwarg list \<Rightarrow> sessions" where
  "update_session st sid kwargs =
     (case st sid of
        None \<Rightarrow> st
      | Some session \<Rightarrow> st(sid \<mapsto> foldl setattr session kwargs))"

definition add_question :: "sessions \<Rightarrow> string \<Rightarrow> string \<Rightarrow> string \<Rightarrow> sessions \<times> int" where
  "add_question st sid q cat =
     (case st sid of
        None \<Rightarrow> (st, 0)
      | Some session \<Rightarrow>
          (let q_num = int (length (questions session)) + 1
           in (st(sid \<mapsto> session\<lparr>questions := questions session @
                  [\<lparr>question_number = q_num, question = q, category = cat, answer = None,
                    score = 0, feedback = [], skipped = False\<rparr>]\<rparr>),
               q_num)))"

definition record_answer :: "sessions \<Rightarrow> string \<Rightarrow> string \<Rightarrow> int \<Rightarrow> string \<Rightarrow> sessions" where
  "record_answer st sid ans sc fb =
     (case st sid of
        None \<Rightarrow> st
      | Some session \<Rightarrow>
          if questions session = [] then st
          else (let idx = current_question_index session
                in if idx < length (questions session)
                   then st(sid \<mapsto> session
                          \<lparr>questions := (questions session)
                             [idx := (questions session ! idx)
                                \<lparr>answer := Some ans, score := sc, feedback := fb\<rparr>],
                           current_question_index := idx + 1\<rparr>)
                   else st))"

definition record_skip :: "sessions \<Rightarrow> string \<Rightarrow> sessions" where
  "record_skip st sid =
     (case st sid of
        None \<Rightarrow> st
      | Some session \<Rightarrow>
          if questions session = [] then st
          else (let idx = current_question_index session
                in if idx < length (questions session)
                   then st(sid \<mapsto> session
                          \<lparr>questions := (questions session)
                             [idx := (questions session ! idx)\<lparr>skipped := True\<rparr>],
                           current_question_index := idx + 1\<rparr>)
                   else st))"

definition add_to_history :: "sessions \<Rightarrow> string \<Rightarrow> string \<Rightarrow> string \<Rightarrow> sessions" where
  "add_to_history st sid r c =
     (case st sid of
        None \<Rightarrow> st
      | Some session \<Rightarrow>
          st(sid \<mapsto> session\<lparr>conversation_history :=
                conversation_history session @ [\<lparr>role = r, content = c\<rparr>]\<rparr>))"

record report =
  rep_session_id :: string
  total_questions :: int
  rep_answered :: int
  rep_skipped :: int
  average_score :: rat
  best_answer :: "QuestionRecord option"
  worst_answer :: "QuestionRecord option"
  results :: "QuestionRecord list"
  duration_seconds :: int

text \<open>Truthiness of \<open>q.answer\<close>: present and not the empty string.\<close>

definition has_answer :: "QuestionRecord \<Rightarrow> bool" where
  "has_answer q = (case answer q of None \<Rightarrow> False | Some a \<Rightarrow> a \<noteq> [])"

definition answered_of :: "InterviewSession \<Rightarrow> QuestionRecord list" where
  "answered_of session = filter (\<lambda>q. \<not> skipped q \<and> has_answer q) (questions session)"

definition skipped_of :: "InterviewSession \<Rightarrow> QuestionRecord list" where
  "skipped_of session = filter skipped (questions session)"

definition technical_answered_of :: "InterviewSession \<Rightarrow> QuestionRecord list" where
  "technical_answered_of session =
     filter (\<lambda>q. category q \<in> {''technical'', ''skill'', ''project''} \<and> 6 \<le> score q)
       (answered_of session)"

definition get_session_report :: "sessions \<Rightarrow> string \<Rightarrow> report option" where
  "get_session_report st sid =
     (case st sid of
        None \<Rightarrow> None
      | Some session \<Rightarrow>
          (let answered = answered_of session;
               skipped_qs = skipped_of session;
               technical_answered = technical_answered_of session;
               best = (case technical_answered of [] \<Rightarrow> None
                       | q # qs \<Rightarrow> Some (max_by score q qs));
               worst = (case answered of [] \<Rightarrow> None | q # qs \<Rightarrow> Some (min_by score q qs));
               avg_score = (if answered = [] then 0
                            else of_int (sum_list (map score answered))
                                   / of_nat (length answered));
               duration = (if end_time session \<noteq> 0
                           then py_int (end_time session - start_time session) else 0)
           in Some \<lparr>rep_session_id = sid,
                    total_questions = int (length (questions session)),
                    rep_answered = int (length answered),
                    rep_skipped = int (length skipped_qs),
                    average_score = round1 avg_score,
                    best_answer = best,
                    worst_answer = worst,
                    results = questions session,
                    duration_seconds = duration\<rparr>))"


section \<open>services/rag_engine.py\<close>

type_synonym store = "string \<rightharpoonup> string list"

text \<open>\<open>str.lower()\<close> on code points below 256: the ASCII capitals and the Latin-1
  capitals 0xC0..0xDE (without the multiplication sign 0xD7) move up by 32.\<close>

definition lower_char :: "char \<Rightarrow> char" where
  "lower_char c =
     (let n = (of_char c :: nat)
      in if (65 \<le> n \<and> n \<le> 90) \<or> (192 \<le> n \<and> n \<le> 222 \<and> n \<noteq> 215)
         then char_of (n + 32) else c)"

definition lower :: "string \<Rightarrow> string" where
  "lower s = map lower_char s"

definition is_ascii_letter :: "char \<Rightarrow> bool" where
  "is_ascii_letter c =
     (let n = (of_char c :: nat) in (65 \<le> n \<and> n \<le> 90) \<or> (97 \<le> n \<and> n \<le> 122))"

text \<open>\<open>re.findall(r'[a-zA-Z]+', s)\<close>: the maximal runs of ASCII letters.\<close>

fun findall_letters :: "string \<Rightarrow> string \<Rightarrow> string list" where
  "findall_letters [] cur = (if cur = [] then [] else [cur])"
| "findall_letters (c # cs) cur =
     (if is_ascii_letter c then findall_letters cs (cur @ [c])
      else if cur = [] then findall_letters cs [] else cur # findall_letters cs [])"

definition tokenize :: "string \<Rightarrow> string list" where
  "tokenize s = findall_letters (lower s) []"

text \<open>A \<open>Counter\<close> over a token list is read through \<open>count_list\<close>; its keys are the
  distinct tokens. Floats are idealised as reals here, for the square roots.\<close>

definition compute_similarity :: "string list \<Rightarrow> string list \<Rightarrow> real" where
  "compute_similarity query_tokens doc_tokens =
     (if query_tokens = [] \<or> doc_tokens = [] then 0
      else
        (let all_tokens = remdups (query_tokens @ doc_tokens);
             dot_product = sum_list (map (\<lambda>t. int (count_list query_tokens t)
                                              * int (count_list doc_tokens t)) all_tokens);
             q_norm = sqrt (of_int (sum_list (map (\<lambda>t. (int (count_list query_tokens t))\<^sup>2)
                                                (remdups query_tokens))));
             d_norm = sqrt (of_int (sum_list (map (\<lambda>t. (int (count_list doc_tokens t))\<^sup>2)
                                                (remdups doc_tokens))))
         in if q_norm = 0 \<or> d_norm = 0 then 0
            else of_int dot_product / (q_norm * d_norm)))"

text \<open>The loop of \<open>store_resume_chunks\<close> over \<open>range(0, len(words), step)\<close>.\<close>

fun chunk_loop :: "string list \<Rightarrow> nat \<Rightarrow> nat list \<Rightarrow> string list \<Rightarrow> string list" where
  "chunk_loop words step [] chunks = chunks"
| "chunk_loop words step (i # is) chunks =
     (let chunk = join '' '' (slice words i (i + step))
      in chunk_loop words step is (if strip chunk \<noteq> [] then chunks @ [chunk] else chunks))"

definition store_resume_chunks :: "store \<Rightarrow> string \<Rightarrow> string \<Rightarrow> int \<Rightarrow> store" where
  "store_resume_chunks st sid txt chunk_size =
     (let words = split txt;
          step = nat (max chunk_size 1);
          chunks = chunk_loop words step (py_range 0 (length words) step) [];
          chunks = (if chunks = [] then [txt] else chunks)
      in st(sid \<mapsto> chunks))"

text \<open>\<open>scored.sort(key=lambda x: x[0], reverse=True)\<close> is a stable sort by descending
  score; \<open>sort_key\<close> is stable as well.\<close>

definition retrieve_context :: "store \<Rightarrow> string \<Rightarrow> string \<Rightarrow> int \<Rightarrow> string" where
  "retrieve_context st sid query n_results =
     (let chunks = (case st sid of None \<Rightarrow> [] | Some cs \<Rightarrow> cs)
      in if chunks = [] then []
         else
           (let query_tokens = tokenize query;
                scored = map (\<lambda>chunk. (compute_similarity query_tokens (tokenize chunk), chunk))
                           chunks;
                scored = sort_key (\<lambda>x. - fst x) scored;
                top_chunks = map snd (slice_to scored n_results)
            in join [CHR 0x0A] top_chunks))"

definition cleanup_session :: "store \<Rightarrow> string \<Rightarrow> store" where
  "cleanup_session st sid = st(sid := None)"

definition get_full_resume_text :: "store \<Rightarrow> string \<Rightarrow> string" where
  "get_full_resume_text st sid =
     (let chunks = (case st sid of None \<Rightarrow> [] | Some cs \<Rightarrow> cs) in join '' '' chunks)"


section \<open>services/interview_engine.py\<close>

text \<open>
  The oracle is a black box. One request is the chain \<open>_generate\<close>, \<open>_clean_json\<close>,
  \<open>json.loads\<close>: it either raises (no reply in time, text that does not parse) or yields a
  JSON object, read as the record of the keys the callers look at, each absent or present.
  A string-valued key holds a string, \<open>should_end\<close> is read by its truth value, and the
  value under \<open>score\<close> is classified by what \<open>int()\<close> does with it: a number, or a
  value on which the conversion raises. A prompt is represented by the values interpolated
  into its template. A source literal with a character beyond Latin-1 (the em dash) is
  spelled by its UTF-8 bytes; no function inspects it.
\<close>

datatype score_json = Score_int int | Score_bad

record llm_json =
  j_question :: "string option"
  j_analysis :: "string option"
  j_score :: "score_json option"
  j_next_question :: "string option"
  j_category :: "string option"
  j_topic :: "string option"
  j_should_end :: "bool option"
  j_end_reason :: "string option"

datatype prompt =
    First_question_prompt string string string
  | Analyze_prompt string string string string string int nat int
  | After_skip_prompt string string string nat

datatype llm_reply = Raises | Json llm_json

text \<open>\<open>get_client()\<close>: no client without an API key, else a client that answers prompts.\<close>

datatype llm = No_client | Client "prompt \<Rightarrow> llm_reply"

record first_question =
  fq_question :: "string option"
  fq_category :: "string option"
  fq_topic :: string

record decision =
  analysis :: string
  result_score :: int
  next_question :: string
  result_category :: string
  topic :: string
  should_end :: bool
  end_reason :: string

definition em_dash :: string where
  "em_dash = [CHR 0xE2, CHR 0x80, CHR 0x94]"

definition get_list :: "string list option \<Rightarrow> string list \<Rightarrow> string list" where
  "get_list v dflt = (case v of None \<Rightarrow> dflt | Some xs \<Rightarrow> xs)"

definition get_str :: "string option \<Rightarrow> string \<Rightarrow> string" where
  "get_str v dflt = (case v of None \<Rightarrow> dflt | Some x \<Rightarrow> x)"

definition opening_question :: first_question where
  "opening_question =
     \<lparr>fq_question = Some ''Tell me about yourself and your background.'',
      fq_category = Some ''general'', fq_topic = ''introduction''\<rparr>"

text \<open>Every engine function returns its result together with the prompts it sent to the
  oracle, in order.\<close>

definition generate_first_question :: "llm \<Rightarrow> resume_data \<Rightarrow> first_question \<times> prompt list" where
  "generate_first_question client resume =
     (case client of
        No_client \<Rightarrow> (opening_question, [])
      | Client ask \<Rightarrow>
          (let p = First_question_prompt
                     (join '', '' (get_list (skills resume) []))
                     (join '', '' (get_list (projects resume) []))
                     (join '', '' (get_list (experience resume) []))
           in case ask p of
                Raises \<Rightarrow> (opening_question, [p])
              | Json j \<Rightarrow>
                  (\<lparr>fq_question = j_question j, fq_category = j_category j,
                    fq_topic = get_str (j_topic j) ''introduction''\<rparr>, [p])))"

definition fallback_pool :: "string \<Rightarrow> string \<Rightarrow> (string \<times> string \<times> string) list" where
  "fallback_pool s1 s2 =
     [(''Can you tell me what '' @ s1 @ '' is and why you like using it?'', ''skill'', s1),
      (''Tell me about a project you enjoyed working on. What did you build?'',
         ''project'', ''projects''),
      (''When you find a bug in your code, what is the first thing you usually do?'',
         ''behavioral'', ''problem_solving''),
      (''What is '' @ s2 @ '' used for in simple terms?'', ''technical'', s2),
      (''Tell me about something you learned recently that you found interesting.'',
         ''behavioral'', ''learning''),
      (''Have you used Git before? What basic commands do you use most often?'',
         ''technical'', ''git''),
      (''How do you usually learn a new technology or tool?'', ''general'', ''learning''),
      (''What is the difference between frontend and backend development?'',
         ''technical'', ''basics'')]"

definition fallback_next :: "resume_data \<Rightarrow> nat \<Rightarrow> int \<Rightarrow> string \<Rightarrow> decision" where
  "fallback_next resume q_num topic_count cur_topic =
     (let skills_list = get_list (skills resume) [''programming''];
          s1 = (case skills_list of [] \<Rightarrow> ''programming'' | x # _ \<Rightarrow> x);
          s2 = (if 1 < length skills_list then skills_list ! 1 else ''your domain'');
          pool = fallback_pool s1 s2;
          idx = min q_num (length pool - 1);
          fallback = pool ! idx
      in \<lparr>analysis = ''Fallback mode '' @ em_dash @ '' LLM unavailable'',
          result_score = 5,
          next_question = fst fallback,
          result_category = fst (snd fallback),
          topic = snd (snd fallback),
          should_end = False,
          end_reason = []\<rparr>)"

definition conv_line :: "message \<Rightarrow> string" where
  "conv_line h =
     (if role h = ''interviewer'' then ''Interviewer'' else ''Candidate'') @ '': '' @ content h"

definition analyze_and_next_question ::
  "llm \<Rightarrow> resume_data \<Rightarrow> message list \<Rightarrow> string \<Rightarrow> int \<Rightarrow> nat \<Rightarrow> int \<Rightarrow> decision \<times> prompt list"
where
  "analyze_and_next_question client resume history cur_topic topic_count total_asked weak =
     (case client of
        No_client \<Rightarrow> (fallback_next resume total_asked topic_count cur_topic, [])
      | Client ask \<Rightarrow>
          (let recent = (if 16 < length history then last_n history 16 else history);
               conv_text = join [CHR 0x0A] (map conv_line recent);
               p = Analyze_prompt
                     (join '', '' (get_list (skills resume) []))
                     (join '', '' (get_list (projects resume) []))
                     (join '', '' (get_list (experience resume) []))
                     conv_text cur_topic topic_count total_asked weak
           in case ask p of
                Raises \<Rightarrow> (fallback_next resume total_asked topic_count cur_topic, [p])
              | Json j \<Rightarrow>
                  (case (case j_score j of None \<Rightarrow> Some 5
                         | Some (Score_int n) \<Rightarrow> Some n
                         | Some Score_bad \<Rightarrow> None) of
                     None \<Rightarrow> (fallback_next resume total_asked topic_count cur_topic, [p])
                   | Some n \<Rightarrow>
                       (\<lparr>analysis = get_str (j_analysis j) ''Answer analyzed.'',
                         result_score = min (max n 1) 10,
                         next_question =
                           get_str (j_next_question j) ''Can you tell me more about that?'',
                         result_category = get_str (j_category j) ''general'',
                         topic = get_str (j_topic j) cur_topic,
                         should_end = (case j_should_end j of None \<Rightarrow> False | Some b \<Rightarrow> b),
                         end_reason = get_str (j_end_reason j) []\<rparr>, [p]))))"

definition forced_end :: decision where
  "forced_end =
     \<lparr>analysis = ''Candidate skipped again with too many weak responses.'',
      result_score = 0,
      next_question = ''Thank you for your time. That concludes our interview.'',
      result_category = ''general'',
      topic = ''closing'',
      should_end = True,
      end_reason = ''Too many consecutive skips and weak answers''\<rparr>"

definition generate_after_skip ::
  "llm \<Rightarrow> resume_data \<Rightarrow> message list \<Rightarrow> nat \<Rightarrow> int \<Rightarrow> decision \<times> prompt list"
where
  "generate_after_skip client resume history total_asked weak =
     (if 3 \<le> weak \<and> 5 \<le> total_asked then (forced_end, [])
      else
        (case client of
           No_client \<Rightarrow> (fallback_next resume total_asked 0 ''new'', [])
         | Client ask \<Rightarrow>
             (let asked_qs = map content (filter (\<lambda>h. role h = ''interviewer'') history);
                  asked_text = (if asked_qs \<noteq> []
                                then join ([CHR 0x0A] @ ''- '') (last_n asked_qs 8)
                                else ''None'');
                  p = After_skip_prompt
                        (join '', '' (get_list (skills resume) []))
                        (join '', '' (get_list (projects resume) []))
                        asked_text total_asked
              in case ask p of
                   Raises \<Rightarrow> (fallback_next resume total_asked 0 ''new'', [p])
                 | Json j \<Rightarrow>
                     (\<lparr>analysis = ''Candidate skipped '' @ em_dash
                                     @ '' moving to different topic.'',
                       result_score = 0,
                       next_question = get_str (j_next_question j)
                                         ''Tell me about another project you worked on.'',
                       result_category = get_str (j_category j) ''general'',
                       topic = get_str (j_topic j) ''new_topic'',
                       should_end = False,
                       end_reason = []\<rparr>, [p]))))"


section \<open>routes/resume_routes.py and routes/interview_routes.py\<close>

text \<open>
  A handler takes the oracle client, the clock reading and the session store, and returns
  either the HTTP error it raises (the store is then as before) or the new store with the
  response body. A response body is a JSON object: a key the handler does not send is
  \<open>None\<close>. \<open>live st sid\<close> is the object bound by \<open>session = get_session(...)\<close>: the
  handlers read it again after each mutation, and see the mutation.
\<close>

datatype http_error = HTTPException nat string | KeyError string

record response =
  resp_question :: "string option"
  resp_analysis :: "string option"
  resp_next_question :: "string option"
  resp_question_number :: int
  resp_category :: "string option"
  resp_topic :: "string option"
  resp_is_finished :: bool
  resp_score :: "int option"
  resp_end_reason :: "string option"

definition live :: "sessions \<Rightarrow> string \<Rightarrow> InterviewSession" where
  "live st sid = the (st sid)"

definition endswith :: "string \<Rightarrow> string \<Rightarrow> bool" where
  "endswith s suf = (length suf \<le> length s \<and> drop (length s - length suf) s = suf)"

text \<open>\<open>upload_resume\<close>: the inputs are the identifier drawn for the session, the file name,
  the text extracted from the PDF (\<open>None\<close> when saving or extraction raises) and the result
  of the resume analysis. The session created stays in the store when a later step fails.\<close>

definition upload_resume ::
  "string \<Rightarrow> string \<Rightarrow> string option \<Rightarrow> resume_data \<Rightarrow> sessions \<Rightarrow> store
     \<Rightarrow> (sessions \<times> store) \<times> (http_error + string \<times> resume_data)"
where
  "upload_resume uuid filename extracted analysed st rag =
     (if filename = [] then ((st, rag), Inl (HTTPException 400 ''No file provided''))
      else if \<not> endswith (lower filename) ''.pdf''
      then ((st, rag), Inl (HTTPException 400 ''Only PDF files are supported''))
      else
        (let (st1, sid) = create_session uuid st
         in case extracted of
              None \<Rightarrow> ((st1, rag), Inl (HTTPException 500 ''Error processing resume''))
            | Some txt \<Rightarrow>
                if strip txt = []
                then ((st1, rag), Inl (HTTPException 400 ''Could not extract text from PDF''))
                else
                  (let rag1 = store_resume_chunks rag sid txt 100;
                       st2 = update_session st1 sid [Resume_text txt, Resume_summary analysed]
                   in ((st2, rag1), Inr (sid, analysed)))))"

definition start_interview ::
  "llm \<Rightarrow> rat \<Rightarrow> sessions \<Rightarrow> string \<Rightarrow> http_error + sessions \<times> response"
where
  "start_interview client now st sid =
     (case get_session st sid of
        None \<Rightarrow> Inl (HTTPException 404 ''Session not found. Please upload resume first.'')
      | Some session \<Rightarrow>
          if started session then Inl (HTTPException 400 ''Interview already started'')
          else
            (let first_q = fst (generate_first_question client (resume_summary session))
             in case fq_question first_q of
                  None \<Rightarrow> Inl (KeyError ''question'')
                | Some q \<Rightarrow>
                    (case fq_category first_q of
                       None \<Rightarrow> Inl (KeyError ''category'')
                     | Some cat \<Rightarrow>
                         (let st1 = fst (add_question st sid q cat);
                              st2 = update_session st1 sid
                                      [Started True, Start_time now,
                                       Current_topic (fq_topic first_q),
                                       Topic_question_count 1, Weak_streak 0];
                              st3 = add_to_history st2 sid ''interviewer'' q
                          in Inr (st3,
                                  \<lparr>resp_question = Some q, resp_analysis = Some [],
                                   resp_next_question = None, resp_question_number = 1,
                                   resp_category = Some cat, resp_topic = None,
                                   resp_is_finished = False, resp_score = Some 0,
                                   resp_end_reason = None\<rparr>)))))"

definition submit_answer ::
  "llm \<Rightarrow> rat \<Rightarrow> sessions \<Rightarrow> string \<Rightarrow> string \<Rightarrow> http_error + sessions \<times> response"
where
  "submit_answer client now st sid ans =
     (case get_session st sid of
        None \<Rightarrow> Inl (HTTPException 404 ''Session not found'')
      | Some session \<Rightarrow>
          if \<not> started session then Inl (HTTPException 400 ''Interview not started'')
          else if finished session then Inl (HTTPException 400 ''Interview already finished'')
          else
            (let current_idx = current_question_index session
             in if length (questions session) \<le> current_idx
                then Inr (update_session st sid [Finished True, End_time now],
                          \<lparr>resp_question = None, resp_analysis = Some ''Interview complete!'',
                           resp_next_question = None,
                           resp_question_number = int current_idx,
                           resp_category = Some [], resp_topic = None,
                           resp_is_finished = True, resp_score = Some 0,
                           resp_end_reason = None\<rparr>)
                else
                  (let st1 = add_to_history st sid ''candidate'' ans;
                       result = fst (analyze_and_next_question client
                                  (resume_summary (live st1 sid))
                                  (conversation_history (live st1 sid))
                                  (current_topic (live st1 sid))
                                  (topic_question_count (live st1 sid))
                                  (length (questions (live st1 sid)))
                                  (weak_streak (live st1 sid)));
                       sc = result_score result;
                       st2 = record_answer st1 sid ans sc (analysis result);
                       new_weak_streak = (if sc \<le> 5 then weak_streak (live st2 sid) + 1 else 0);
                       new_topic = topic result;
                       new_topic_count = (if new_topic \<noteq> current_topic (live st2 sid) then 1
                                          else topic_question_count (live st2 sid) + 1);
                       st3 = update_session st2 sid
                               [Current_topic new_topic, Topic_question_count new_topic_count,
                                Weak_streak new_weak_streak]
                   in if should_end result
                      then (let st4 = update_session st3 sid [Finished True, End_time now]
                            in Inr (st4,
                                    \<lparr>resp_question = None,
                                     resp_analysis = Some (analysis result),
                                     resp_next_question = Some (next_question result),
                                     resp_question_number =
                                       int (length (questions (live st4 sid))),
                                     resp_category = Some (result_category result),
                                     resp_topic = None, resp_is_finished = True,
                                     resp_score = Some sc,
                                     resp_end_reason = Some (end_reason result)\<rparr>))
                      else (let st4 = fst (add_question st3 sid (next_question result)
                                             (result_category result));
                                st5 = add_to_history st4 sid ''interviewer''
                                        (next_question result)
                            in Inr (st5,
                                    \<lparr>resp_question = None,
                                     resp_analysis = Some (analysis result),
                                     resp_next_question = Some (next_question result),
                                     resp_question_number =
                                       int (length (questions (live st5 sid))),
                                     resp_category = Some (result_category result),
                                     resp_topic = Some new_topic, resp_is_finished = False,
                                     resp_score = Some sc, resp_end_reason = None\<rparr>)))))"

definition skip_question ::
  "llm \<Rightarrow> rat \<Rightarrow> sessions \<Rightarrow> string \<Rightarrow> http_error + sessions \<times> response"
where
  "skip_question client now st sid =
     (case get_session st sid of
        None \<Rightarrow> Inl (HTTPException 404 ''Session not found'')
      | Some session \<Rightarrow>
          if \<not> started session then Inl (HTTPException 400 ''Interview not started'')
          else if finished session then Inl (HTTPException 400 ''Interview already finished'')
          else
            (let st1 = record_skip st sid;
                 new_weak_streak = weak_streak (live st1 sid) + 1;
                 st2 = update_session st1 sid [Weak_streak new_weak_streak];
                 result = fst (generate_after_skip client
                            (resume_summary (live st2 sid))
                            (conversation_history (live st2 sid))
                            (length (questions (live st2 sid)))
                            new_weak_streak)
             in if should_end result
                then (let st3 = update_session st2 sid [Finished True, End_time now]
                      in Inr (st3,
                              \<lparr>resp_question = None, resp_analysis = None,
                               resp_next_question = Some (next_question result),
                               resp_question_number = int (length (questions (live st3 sid))),
                               resp_category = Some ''general'', resp_topic = None,
                               resp_is_finished = True, resp_score = None,
                               resp_end_reason = Some (end_reason result)\<rparr>))
                else (let new_topic = topic result;
                          st3 = fst (add_question st2 sid (next_question result)
                                       (result_category result));
                          st4 = add_to_history st3 sid ''interviewer'' (next_question result);
                          st5 = update_session st4 sid
                                  [Current_topic new_topic, Topic_question_count 1]
                      in Inr (st5,
                              \<lparr>resp_question = None, resp_analysis = None,
                               resp_next_question = Some (next_question result),
                               resp_question_number = int (length (questions (live st5 sid))),
                               resp_category = Some (result_category result),
                               resp_topic = Some new_topic, resp_is_finished = False,
                               resp_score = None, resp_end_reason = None\<rparr>))))"

definition end_interview :: "rat \<Rightarrow> sessions \<Rightarrow> string \<Rightarrow> http_error + sessions \<times> string \<times> string"
where
  "end_interview now st sid =
     (case get_session st sid of
        None \<Rightarrow> Inl (HTTPException 404 ''Session not found'')
      | Some session \<Rightarrow>
          Inr (update_session st sid [Finished True, End_time now],
               (''Interview ended'', sid)))"


section \<open>Reachable states\<close>

text \<open>
  The stores the public operations can produce from the empty store: upload (which creates
  the session), start, answer, skip and end, with any inputs, any oracle and any clock.
  The report only reads the store.
\<close>

inductive reachable :: "sessions \<Rightarrow> bool" where
  boot: "reachable Map.empty"
| upload: "reachable st \<Longrightarrow> fst (fst (upload_resume uuid filename extracted analysed st rag)) = st'
             \<Longrightarrow> reachable st'"
| start: "reachable st \<Longrightarrow> start_interview client now st sid = Inr (st', r) \<Longrightarrow> reachable st'"
| answer: "reachable st \<Longrightarrow> submit_answer client now st sid ans = Inr (st', r)
             \<Longrightarrow> reachable st'"
| skip: "reachable st \<Longrightarrow> skip_question client now st sid = Inr (st', r) \<Longrightarrow> reachable st'"
| finish: "reachable st \<Longrightarrow> end_interview now st sid = Inr (st', r) \<Longrightarrow> reachable st'"

text \<open>
  The stores at every point inside the operations: each statement of a handler that
  changes the store is one call of the memory manager, and \<open>update_session\<close> is only called
  with the keywords below.
\<close>

fun handler_kwarg :: "kwarg \<Rightarrow> bool" where
  "handler_kwarg (Resume_text v) = True"
| "handler_kwarg (Resume_summary v) = True"
| "handler_kwarg (Started v) = True"
| "handler_kwarg (Finished v) = True"
| "handler_kwarg (Start_time v) = True"
| "handler_kwarg (End_time v) = True"
| "handler_kwarg (Current_topic v) = True"
| "handler_kwarg (Topic_question_count v) = True"
| "handler_kwarg (Weak_streak v) = True"
| "handler_kwarg other = False"

inductive at_any_point :: "sessions \<Rightarrow> bool" where
  p_boot: "at_any_point Map.empty"
| p_create: "at_any_point st \<Longrightarrow> at_any_point (fst (create_session uuid st))"
| p_add_question: "at_any_point st \<Longrightarrow> at_any_point (fst (add_question st sid q cat))"
| p_record_answer: "at_any_point st \<Longrightarrow> at_any_point (record_answer st sid ans sc fb)"
| p_record_skip: "at_any_point st \<Longrightarrow> at_any_point (record_skip st sid)"
| p_add_to_history: "at_any_point st \<Longrightarrow> at_any_point (add_to_history st sid r c)"
| p_update: "at_any_point st \<Longrightarrow> list_all handler_kwarg kwargs
               \<Longrightarrow> at_any_point (update_session st sid kwargs)"


section \<open>Auxiliary notions for the statements\<close>

text \<open>A word as \<open>split\<close> produces it: not empty and free of whitespace.\<close>

definition good_word :: "string \<Rightarrow> bool" where
  "good_word w = (w \<noteq> [] \<and> (\<forall>c\<in>set w. \<not> isspace c))"

text \<open>What holds of a session at every point of every handler: the index stays within the
  question list, and the ordinals count the positions from 1.\<close>

definition point_ok :: "InterviewSession \<Rightarrow> bool" where
  "point_ok s =
     (current_question_index s \<le> length (questions s)
      \<and> (\<forall>i<length (questions s). question_number (questions s ! i) = int i + 1))"

text \<open>What holds of a session between two operations: before the start no question has
  been issued; while the interview is in progress the index points at the last question
  issued, which is the one waiting for its answer; the topic counter is positive once
  started.\<close>

definition session_ok :: "InterviewSession \<Rightarrow> bool" where
  "session_ok s =
     ((\<not> started s \<longrightarrow> questions s = [] \<and> current_question_index s = 0)
      \<and> (started s \<and> \<not> finished s \<longrightarrow> Suc (current_question_index s) = length (questions s))
      \<and> (started s \<longrightarrow> 1 \<le> topic_question_count s))"

definition store_ok :: "sessions \<Rightarrow> bool" where
  "store_ok st = (\<forall>sid s. st sid = Some s \<longrightarrow> session_ok s)"

text \<open>The decision the engine returns in one cycle on session \<open>s\<close>, with the arguments
  the handlers pass: for an answer the history already holds the answer, for a skip the
  weak streak is already raised.\<close>

definition answer_decision :: "llm \<Rightarrow> InterviewSession \<Rightarrow> string \<Rightarrow> decision" where
  "answer_decision client s ans =
     fst (analyze_and_next_question client (resume_summary s)
            (conversation_history s @ [\<lparr>role = ''candidate'', content = ans\<rparr>])
            (current_topic s) (topic_question_count s) (length (questions s)) (weak_streak s))"

definition skip_decision :: "llm \<Rightarrow> InterviewSession \<Rightarrow> decision" where
  "skip_decision client s =
     fst (generate_after_skip client (resume_summary s) (conversation_history s)
            (length (questions s)) (weak_streak s + 1))"

text \<open>The oracle is unreachable: no client is configured, or every request raises.\<close>

definition oracle_down :: "llm \<Rightarrow> bool" where
  "oracle_down client = (case client of No_client \<Rightarrow> True | Client ask \<Rightarrow> \<forall>p. ask p = Raises)"

text \<open>A session right after upload and start without an oracle, a finished session with
  four scored answers, and two oracle replies, used to run the theorems on concrete
  inputs.\<close>

definition demo_question :: QuestionRecord where
  "demo_question =
     \<lparr>question_number = 1, question = ''Tell me about yourself and your background.'',
      category = ''general'', answer = None, score = 0, feedback = [], skipped = False\<rparr>"

definition demo_session :: InterviewSession where
  "demo_session =
     \<lparr>session_id = ''s1'', resume_text = ''Python'', resume_summary = empty_resume,
      questions = [demo_question], current_question_index = 0, started = True,
      finished = False, start_time = 1, end_time = 0,
      conversation_history =
        [\<lparr>role = ''interviewer'', content = ''Tell me about yourself and your background.''\<rparr>],
      current_topic = ''introduction'', topic_question_count = 1, weak_streak = 0\<rparr>"

definition demo_store :: sessions where
  "demo_store = [''s1'' \<mapsto> demo_session]"

definition ending_reply :: llm_json where
  "ending_reply =
     \<lparr>j_question = None, j_analysis = Some ''Good.'', j_score = Some (Score_int 7),
      j_next_question = Some ''Thank you, that wraps up our interview.'', j_category = None,
      j_topic = None, j_should_end = Some True, j_end_reason = Some ''done''\<rparr>"

definition same_topic_reply :: llm_json where
  "same_topic_reply =
     \<lparr>j_question = None, j_analysis = None, j_score = None,
      j_next_question = Some ''What do you enjoy most about your work?'',
      j_category = Some ''general'', j_topic = Some ''introduction'', j_should_end = None,
      j_end_reason = None\<rparr>"

definition scored_question :: "int \<Rightarrow> string \<Rightarrow> int \<Rightarrow> QuestionRecord" where
  "scored_question n cat sc =
     \<lparr>question_number = n, question = ''Q'', category = cat, answer = Some ''A'', score = sc,
      feedback = [], skipped = False\<rparr>"

definition report_session :: InterviewSession where
  "report_session =
     (new_session ''s2'')
       \<lparr>questions := [scored_question 1 ''general'' 3, scored_question 2 ''general'' 7,
                      scored_question 3 ''project'' 9, scored_question 4 ''general'' 5],
        current_question_index := 4, started := True, finished := True\<rparr>"


section \<open>Retrieval engine: chunking and reassembly\<close>

lemma isspace_space: "isspace CHR '' ''"
  by (simp add: isspace_def)

lemma split_aux_good:
  "(\<forall>c\<in>set cur. \<not> isspace c) \<Longrightarrow> (\<forall>w\<in>set (split_aux s cur). good_word w)"
proof (induction s arbitrary: cur)
  case Nil
  then show ?case by (simp add: good_word_def)
next
  case (Cons a s)
  show ?case
  proof (cases "isspace a")
    case True
    have "\<forall>w\<in>set (split_aux s []). good_word w" by (rule Cons.IH) simp
    with True Cons.prems show ?thesis by (simp add: good_word_def)
  next
    case False
    with Cons.prems have "\<forall>c\<in>set (cur @ [a]). \<not> isspace c" by simp
    then have "\<forall>w\<in>set (split_aux s (cur @ [a])). good_word w" by (rule Cons.IH)
    with False show ?thesis by simp
  qed
qed

lemma split_aux_word:
  "\<forall>c\<in>set w. \<not> isspace c \<Longrightarrow> cur @ w \<noteq> [] \<Longrightarrow> split_aux w cur = [cur @ w]"
  by (induction w arbitrary: cur) auto

lemma split_aux_sep:
  "isspace sp \<Longrightarrow> split_aux (a @ sp # b) cur = split_aux a cur @ split_aux b []"
  by (induction a arbitrary: cur) auto

lemma split_join: "split (join '' '' xs) = concat (map split xs)"
proof (induction xs)
  case Nil
  show ?case by (simp add: split_def)
next
  case (Cons x xs)
  show ?case
  proof (cases xs)
    case Nil
    then show ?thesis by simp
  next
    case (Cons y ys)
    have "split (x @ CHR '' '' # join '' '' (y # ys)) = split x @ split (join '' '' (y # ys))"
      unfolding split_def by (rule split_aux_sep) (rule isspace_space)
    with Cons Cons.IH show ?thesis by simp
  qed
qed

lemma split_good_word: "good_word w \<Longrightarrow> split w = [w]"
  unfolding split_def good_word_def using split_aux_word[of w "[]"] by simp

lemma split_words_good: "w \<in> set (split s) \<Longrightarrow> good_word w"
  unfolding split_def using split_aux_good[of "[]" s] by simp

lemma concat_split_words: "\<forall>w\<in>set ws. good_word w \<Longrightarrow> concat (map split ws) = ws"
  by (induction ws) (simp_all add: split_good_word)

lemma dropWhile_keeps: "(\<exists>x\<in>set (dropWhile P s). \<not> P x) = (\<exists>c\<in>set s. \<not> P c)"
  by (induction s) auto

lemma strip_nonempty: "(strip s \<noteq> []) = (\<exists>c\<in>set s. \<not> isspace c)"
proof -
  have "(strip s \<noteq> []) = (\<exists>x\<in>set (rev (dropWhile isspace s)). \<not> isspace x)"
    by (simp add: strip_def dropWhile_eq_Nil_conv)
  also have "\<dots> = (\<exists>c\<in>set s. \<not> isspace c)"
    using dropWhile_keeps[of isspace s] by simp
  finally show ?thesis .
qed

lemma set_hd_join: "set w \<subseteq> set (join sep (w # rest))"
  by (cases rest) auto

lemma join_words_has_char:
  assumes "ws \<noteq> []" "\<forall>w\<in>set ws. good_word w"
  shows "\<exists>c\<in>set (join sep ws). \<not> isspace c"
proof -
  from assms(1) obtain w rest where ws: "ws = w # rest" by (cases ws) auto
  with assms(2) have "good_word w" by simp
  then obtain c where "c \<in> set w" "\<not> isspace c"
    by (cases w) (auto simp: good_word_def)
  with set_hd_join[of w sep rest] ws show ?thesis by auto
qed

lemma py_range_concat:
  "0 < step \<Longrightarrow> concat (map (\<lambda>i. slice ws i (i + step)) (py_range i (length ws) step)) = drop i ws"
proof (induction i "length ws" step rule: py_range.induct)
  case (1 i step)
  show ?case
  proof (cases "i < length ws")
    case True
    with 1 have "concat (map (\<lambda>i. slice ws i (i + step)) (py_range (i + step) (length ws) step))
                   = drop (i + step) ws" by simp
    with True 1(2) show ?thesis
      by (subst py_range.simps) (simp add: slice_def add.commute[of i step] flip: drop_drop)
  next
    case False
    then show ?thesis by (subst py_range.simps) simp
  qed
qed

lemma py_range_length:
  "0 < step \<Longrightarrow> length (py_range i n step) = (n - i + step - 1) div step"
proof (induction i n step rule: py_range.induct)
  case (1 i n step)
  show ?case
  proof (cases "i < n")
    case True
    with 1 have IH: "length (py_range (i + step) n step) = (n - (i + step) + step - 1) div step"
      by simp
    have "(n - i + step - 1) div step = Suc ((n - (i + step) + step - 1) div step)"
    proof (cases "i + step \<le> n")
      case True
      define m where "m = n - (i + step) + step - 1"
      from True 1(2) have "n - i + step - 1 = m + step" by (simp add: m_def)
      moreover have "(m + step) div step = Suc (m div step)" using 1(2) by simp
      ultimately show ?thesis by (simp add: m_def)
    next
      case False
      define r where "r = n - i - 1"
      from False \<open>i < n\<close> 1(2) have r: "r < step" "n - i + step - 1 = r + step"
        "n - (i + step) + step - 1 = step - 1" by (simp_all add: r_def)
      have e1: "(n - i + step - 1) div step = (r + step) div step" by (simp only: r(2))
      have e2: "(r + step) div step = Suc 0" using r(1) by simp
      have "(step - 1) div step = 0" using 1(2) by simp
      then have e3: "(n - (i + step) + step - 1) div step = 0" by (simp only: r(3))
      show ?thesis by (simp only: e1 e2 e3)
    qed
    with True 1(2) IH show ?thesis by (subst py_range.simps) simp
  next
    case False
    then show ?thesis using 1(2) by (subst py_range.simps) simp
  qed
qed

lemma py_range_nth:
  "0 < step \<Longrightarrow> j < length (py_range i n step) \<Longrightarrow> py_range i n step ! j = i + j * step"
proof (induction i n step arbitrary: j rule: py_range.induct)
  case (1 i n step)
  show ?case
  proof (cases "i < n")
    case True
    note lt = this
    show ?thesis
    proof (cases j)
      case 0
      with lt 1(2) show ?thesis by (subst py_range.simps) simp
    next
      case (Suc k)
      with 1(3) lt 1(2) have "k < length (py_range (i + step) n step)"
        by (subst (asm) py_range.simps) simp
      with 1(1)[of k] lt 1(2) have "py_range (i + step) n step ! k = i + step + k * step" by simp
      with Suc lt 1(2) show ?thesis by (subst py_range.simps) simp
    qed
  next
    case False
    with 1(3) show ?thesis by (subst (asm) py_range.simps) simp
  qed
qed

lemma chunk_loop_eq:
  "chunk_loop words step is acc =
     acc @ filter (\<lambda>c. strip c \<noteq> []) (map (\<lambda>i. join '' '' (slice words i (i + step))) is)"
  by (induction "is" arbitrary: acc) (simp_all add: Let_def)

lemma py_range_bound: "x \<in> set (py_range i n step) \<Longrightarrow> x < n"
proof (induction i n step rule: py_range.induct)
  case (1 i n step)
  show ?case
  proof (cases "0 < step \<and> i < n")
    case True
    with 1(2) have "x = i \<or> x \<in> set (py_range (i + step) n step)"
      by (subst (asm) py_range.simps) simp
    with True 1(1) show ?thesis by auto
  next
    case False
    with 1(2) show ?thesis by (subst (asm) py_range.simps) simp
  qed
qed

lemma chunks_all_kept:
  assumes good: "\<forall>w\<in>set ws. good_word w" and step: "0 < step"
  shows "chunk_loop ws step (py_range 0 (length ws) step) []
           = map (\<lambda>i. join '' '' (slice ws i (i + step))) (py_range 0 (length ws) step)"
proof -
  have "strip (join '' '' (slice ws i (i + step))) \<noteq> []"
    if "i \<in> set (py_range 0 (length ws) step)" for i
  proof -
    from that have "i < length ws" by (rule py_range_bound)
    with step have "slice ws i (i + step) \<noteq> []" by (simp add: slice_def)
    moreover have "\<forall>w\<in>set (slice ws i (i + step)). good_word w"
      using good by (auto simp: slice_def dest: in_set_takeD in_set_dropD)
    ultimately show ?thesis by (simp add: strip_nonempty join_words_has_char)
  qed
  then show ?thesis by (simp add: chunk_loop_eq filter_id_conv)
qed

lemma ceiling_hundredth: "\<lceil>(of_nat k :: rat) / 100\<rceil> = int ((k + 99) div 100)"
proof -
  have "\<lceil>(of_int (int k) :: rat) / of_int 100\<rceil> = - (- int k div 100)"
    by (rule ceiling_divide_eq_div)
  also have "\<dots> = int ((k + 99) div 100)" by (simp add: zdiv_int)
  finally show ?thesis by simp
qed

lemma split_repeated_word:
  "split (concat (replicate n ''a '')) = replicate n ''a''"
proof -
  have "split_aux (''a '' @ rest) [] = ''a'' # split_aux rest []" for rest
    by (simp add: isspace_def)
  then have "split_aux (concat (replicate n ''a '')) [] = replicate n ''a''"
    by (induction n) simp_all
  then show ?thesis by (simp add: split_def)
qed

text \<open>
  Claim C7. A document whose text splits into \<open>k \<ge> 1\<close> words, ingested with chunk size
  100, is stored under its key as exactly \<open>ceil(k / 100)\<close> chunks, whatever was stored
  under the key before, and the other keys keep their chunks; chunk \<open>j\<close> is the space-joined
  window of the words \<open>100 j\<close> up to \<open>100 j + 100\<close> (the last one possibly shorter); and
  splitting the text that \<open>get_full_resume_text\<close> returns afterwards gives the same word
  sequence.
\<close>

theorem ingest_chunks_roundtrip:
  assumes "split txt = ws" and "ws \<noteq> []"
  shows "\<exists>chunks. store_resume_chunks st key txt 100 key = Some chunks
           \<and> int (length chunks) = \<lceil>(of_nat (length ws) :: rat) / 100\<rceil>
           \<and> length chunks = (length ws + 99) div 100
           \<and> (\<forall>j<length chunks. chunks ! j = join '' '' (slice ws (100 * j) (100 * j + 100)))
           \<and> (\<forall>other. other \<noteq> key \<longrightarrow> store_resume_chunks st key txt 100 other = st other)
           \<and> split (get_full_resume_text (store_resume_chunks st key txt 100) key) = ws"
proof -
  define r where "r = py_range 0 (length ws) 100"
  define chunks where "chunks = map (\<lambda>i. join '' '' (slice ws i (i + 100))) r"
  have good: "\<forall>w\<in>set ws. good_word w"
    using assms(1) split_words_good by blast
  have loop: "chunk_loop ws 100 r [] = chunks"
    unfolding r_def chunks_def by (rule chunks_all_kept[OF good]) simp
  have len: "length chunks = (length ws + 99) div 100"
    by (simp add: chunks_def r_def py_range_length)
  then have cl: "int (length chunks) = \<lceil>(of_nat (length ws) :: rat) / 100\<rceil>"
    by (simp only: ceiling_hundredth)
  from assms(2) have "0 < (length ws + 99) div 100"
    by (cases ws) (simp_all add: div_greater_zero_iff)
  with len have ne: "chunks \<noteq> []" by auto
  have stored: "store_resume_chunks st key txt 100 key = Some chunks"
    using loop ne by (simp add: store_resume_chunks_def assms(1) r_def Let_def)
  have others: "\<forall>other. other \<noteq> key \<longrightarrow> store_resume_chunks st key txt 100 other = st other"
    by (simp add: store_resume_chunks_def Let_def)
  have nth: "chunks ! j = join '' '' (slice ws (100 * j) (100 * j + 100))" if "j < length chunks" for j
  proof -
    from that have "j < length r" by (simp add: chunks_def)
    then have "r ! j = 0 + j * 100" unfolding r_def by (intro py_range_nth) simp_all
    with \<open>j < length r\<close> show ?thesis by (simp add: chunks_def mult.commute)
  qed
  have "split (join '' '' chunks) = concat (map split chunks)" by (rule split_join)
  also have "\<dots> = concat (map (\<lambda>i. slice ws i (i + 100)) r)"
  proof -
    have "split (join '' '' (slice ws i (i + 100))) = slice ws i (i + 100)" for i
    proof -
      have "\<forall>w\<in>set (slice ws i (i + 100)). good_word w"
        using good by (auto simp: slice_def dest: in_set_takeD in_set_dropD)
      then show ?thesis by (simp add: split_join concat_split_words)
    qed
    then show ?thesis by (simp add: chunks_def comp_def)
  qed
  also have "\<dots> = ws" unfolding r_def using py_range_concat[of 100 ws 0] by simp
  finally have "split (get_full_resume_text (store_resume_chunks st key txt 100) key) = ws"
    by (simp add: get_full_resume_text_def stored)
  with stored cl len nth others show ?thesis by blast
qed

theorem ingest_chunks_roundtrip_witness:
  "split (concat (replicate 250 ''a '')) = replicate 250 ''a''
   \<and> replicate 250 ''a'' \<noteq> ([] :: string list)
   \<and> (\<exists>chunks. store_resume_chunks [''k'' \<mapsto> [''old'']] ''k'' (concat (replicate 250 ''a '')) 100
                   ''k'' = Some chunks
           \<and> length chunks = 3
           \<and> split (get_full_resume_text
                (store_resume_chunks [''k'' \<mapsto> [''old'']] ''k'' (concat (replicate 250 ''a '')) 100)
                ''k'') = replicate 250 ''a'')"
proof -
  have h: "split (concat (replicate 250 ''a '')) = replicate 250 ''a''"
    by (rule split_repeated_word)
  have n: "replicate 250 ''a'' \<noteq> ([] :: string list)" by simp
  from ingest_chunks_roundtrip[OF h n, of "[''k'' \<mapsto> [''old'']]" "''k''"] h n
  show ?thesis by auto
qed

text \<open>
  Claim C10. For a key under which nothing is stored (never ingested, or cleaned up), the
  retrieval operations return without failing: \<open>retrieve_context\<close> and
  \<open>get_full_resume_text\<close> give the empty string and \<open>cleanup_session\<close> leaves the store as
  it is.
\<close>

theorem retrieval_missing_key:
  "st key = None \<Longrightarrow>
     retrieve_context st key query n = [] \<and> get_full_resume_text st key = []
       \<and> cleanup_session st key = st"
  by (auto simp: retrieve_context_def get_full_resume_text_def cleanup_session_def)

theorem retrieval_missing_key_witness:
  "cleanup_session (store_resume_chunks Map.empty ''k'' ''hello'' 100) ''k'' ''k'' = None
   \<and> retrieve_context (cleanup_session (store_resume_chunks Map.empty ''k'' ''hello'' 100) ''k'')
        ''k'' ''hello'' 3 = []
   \<and> get_full_resume_text (cleanup_session (store_resume_chunks Map.empty ''k'' ''hello'' 100) ''k'')
        ''k'' = []
   \<and> cleanup_session (cleanup_session (store_resume_chunks Map.empty ''k'' ''hello'' 100) ''k'') ''k''
       = cleanup_session (store_resume_chunks Map.empty ''k'' ''hello'' 100) ''k''"
proof -
  have h: "cleanup_session (store_resume_chunks Map.empty ''k'' ''hello'' 100) ''k'' ''k'' = None"
    by (simp add: cleanup_session_def)
  from retrieval_missing_key[of "cleanup_session (store_resume_chunks Map.empty ''k'' ''hello'' 100) ''k''"
      "''k''" "''hello''" 3] h show ?thesis by simp
qed


section \<open>Report aggregation\<close>

lemma max_by_greatest: "max_by f b xs \<in> set (b # xs) \<and> (\<forall>q\<in>set (b # xs). f q \<le> f (max_by f b xs))"
proof (induction xs arbitrary: b)
  case Nil
  show ?case by simp
next
  case (Cons x xs)
  let ?b = "if f b < f x then x else b"
  from Cons[of ?b] have m: "max_by f ?b xs \<in> set (?b # xs)"
    and g: "\<forall>q\<in>set (?b # xs). f q \<le> f (max_by f ?b xs)" by blast+
  from g have "f ?b \<le> f (max_by f ?b xs)" by simp
  then have "f b \<le> f (max_by f ?b xs)" "f x \<le> f (max_by f ?b xs)"
    by (auto split: if_splits)
  with m g show ?case by (auto split: if_splits)
qed

lemma min_by_least: "min_by f b xs \<in> set (b # xs) \<and> (\<forall>q\<in>set (b # xs). f (min_by f b xs) \<le> f q)"
proof (induction xs arbitrary: b)
  case Nil
  show ?case by simp
next
  case (Cons x xs)
  let ?b = "if f x < f b then x else b"
  from Cons[of ?b] have m: "min_by f ?b xs \<in> set (?b # xs)"
    and g: "\<forall>q\<in>set (?b # xs). f (min_by f ?b xs) \<le> f q" by blast+
  from g have "f (min_by f ?b xs) \<le> f ?b" by simp
  then have "f (min_by f ?b xs) \<le> f b" "f (min_by f ?b xs) \<le> f x"
    by (auto split: if_splits)
  with m g show ?case by (auto split: if_splits)
qed

lemma round_half_even_close: "\<bar>of_int (round_half_even y) - y\<bar> \<le> 1 / 2"
proof -
  define f where "f = \<lfloor>y\<rfloor>"
  have b: "of_int f \<le> y" "y < of_int f + 1" unfolding f_def by linarith+
  have "round_half_even y =
          (if y - of_int f < 1 / 2 then f else if 1 / 2 < y - of_int f then f + 1
           else if even f then f else f + 1)"
    by (simp add: round_half_even_def Let_def f_def)
  with b show ?thesis by (auto simp: abs_if split: if_splits)
qed

lemma round1_close: "\<bar>round1 x - x\<bar> \<le> 1 / 20"
proof -
  have "\<bar>of_int (round_half_even (x * 10)) - x * 10\<bar> \<le> 1 / 2" by (rule round_half_even_close)
  then show ?thesis by (simp add: round1_def abs_if split: if_splits)
qed

text \<open>
  Claim C8. The report of a session counts as answered the records that are not skipped and
  carry an answer (present and not empty, as Python's truth test reads it). The best answer
  is absent when no answered record of category technical, skill or project has score at
  least 6, and otherwise is one of those records with the greatest score among them. The
  worst answer is absent when nothing is answered, and otherwise is an answered record with
  the least score. The average score is 0 when nothing is answered, and otherwise a
  multiple of one tenth within one twentieth of the mean score of the answered records,
  that is the mean rounded to one decimal.
\<close>

theorem report_aggregates:
  assumes "st sid = Some session"
    and "answered = filter (\<lambda>q. \<not> skipped q \<and> answer q \<noteq> None \<and> answer q \<noteq> Some [])
                      (questions session)"
    and "eligible = filter (\<lambda>q. (category q = ''technical'' \<or> category q = ''skill''
                                   \<or> category q = ''project'') \<and> 6 \<le> score q) answered"
    and "mean = of_int (sum_list (map score answered)) / of_nat (length answered)"
  shows "\<exists>rep. get_session_report st sid = Some rep
           \<and> rep_answered rep = int (length answered)
           \<and> (if eligible = [] then best_answer rep = None
               else \<exists>b. best_answer rep = Some b \<and> b \<in> set eligible
                          \<and> (\<forall>q\<in>set eligible. score q \<le> score b))
           \<and> (if answered = [] then worst_answer rep = None \<and> average_score rep = 0
               else (\<exists>w. worst_answer rep = Some w \<and> w \<in> set answered
                          \<and> (\<forall>q\<in>set answered. score w \<le> score q))
                    \<and> (\<exists>n::int. average_score rep = of_int n / 10)
                    \<and> \<bar>average_score rep - mean\<bar> \<le> 1 / 20)"
proof -
  have a: "answered_of session = answered"
    unfolding answered_of_def assms(2) has_answer_def
    by (rule filter_cong) (auto split: option.splits)
  have e: "technical_answered_of session = eligible"
    unfolding technical_answered_of_def a assms(3) by (rule filter_cong) auto
  obtain rep where rep: "get_session_report st sid = Some rep"
    by (simp add: get_session_report_def assms(1) Let_def)
  from rep have cnt: "rep_answered rep = int (length answered)"
    by (auto simp: get_session_report_def assms(1) Let_def a)
  from rep have best: "best_answer rep = (case eligible of [] \<Rightarrow> None | q # qs \<Rightarrow> Some (max_by score q qs))"
    by (auto simp: get_session_report_def assms(1) Let_def e)
  from rep have worst: "worst_answer rep = (case answered of [] \<Rightarrow> None | q # qs \<Rightarrow> Some (min_by score q qs))"
    by (auto simp: get_session_report_def assms(1) Let_def a)
  from rep have avg: "average_score rep = round1 (if answered = [] then 0 else mean)"
    by (auto simp: get_session_report_def assms(1) Let_def a assms(4))
  have r0: "round1 0 = 0" by (simp add: round1_def round_half_even_def)
  have B: "if eligible = [] then best_answer rep = None
           else \<exists>b. best_answer rep = Some b \<and> b \<in> set eligible
                      \<and> (\<forall>q\<in>set eligible. score q \<le> score b)"
  proof (cases eligible)
    case Nil
    with best show ?thesis by simp
  next
    case (Cons q qs)
    with best max_by_greatest[of score q qs] show ?thesis by simp
  qed
  have W: "if answered = [] then worst_answer rep = None \<and> average_score rep = 0
           else (\<exists>w. worst_answer rep = Some w \<and> w \<in> set answered
                      \<and> (\<forall>q\<in>set answered. score w \<le> score q))
                \<and> (\<exists>n::int. average_score rep = of_int n / 10)
                \<and> \<bar>average_score rep - mean\<bar> \<le> 1 / 20"
  proof (cases answered)
    case Nil
    with worst avg r0 show ?thesis by simp
  next
    case (Cons q qs)
    have "\<exists>n::int. round1 mean = of_int n / 10" by (auto simp: round1_def)
    with Cons worst min_by_least[of score q qs] avg round1_close[of mean] show ?thesis by simp
  qed
  from rep cnt B W show ?thesis by blast
qed

theorem report_aggregates_witness:
  "[''s2'' \<mapsto> report_session] ''s2'' = Some report_session
   \<and> (\<exists>rep. get_session_report [''s2'' \<mapsto> report_session] ''s2'' = Some rep
          \<and> rep_answered rep = 4
          \<and> best_answer rep = Some (scored_question 3 ''project'' 9)
          \<and> worst_answer rep = Some (scored_question 1 ''general'' 3)
          \<and> average_score rep = 6)"
proof -
  have h: "[''s2'' \<mapsto> report_session] ''s2'' = Some report_session" by simp
  note t = report_aggregates[of "[''s2'' \<mapsto> report_session]" "''s2''" report_session,
      OF h refl refl refl]
  have "\<exists>rep. get_session_report [''s2'' \<mapsto> report_session] ''s2'' = Some rep
          \<and> rep_answered rep = 4
          \<and> best_answer rep = Some (scored_question 3 ''project'' 9)
          \<and> worst_answer rep = Some (scored_question 1 ''general'' 3)
          \<and> average_score rep = 6"
    using t
    by (simp add: get_session_report_def answered_of_def skipped_of_def technical_answered_of_def
        has_answer_def report_session_def new_session_def scored_question_def Let_def
        round1_def round_half_even_def)
  with h show ?thesis by simp
qed


section \<open>Invariants at every point of the handlers\<close>

lemma setattr_handler:
  "list_all handler_kwarg kwargs \<Longrightarrow>
     questions (foldl setattr s kwargs) = questions s
     \<and> current_question_index (foldl setattr s kwargs) = current_question_index s"
proof (induction kwargs arbitrary: s)
  case Nil
  show ?case by simp
next
  case (Cons k ks)
  from Cons.prems have "handler_kwarg k" "list_all handler_kwarg ks" by simp_all
  from \<open>handler_kwarg k\<close> have "questions (setattr s k) = questions s
      \<and> current_question_index (setattr s k) = current_question_index s"
    by (cases k) simp_all
  with Cons.IH[OF \<open>list_all handler_kwarg ks\<close>, of "setattr s k"] show ?case by simp
qed

lemma point_ok_new: "point_ok (new_session sid)"
  by (simp add: point_ok_def new_session_def)

lemma point_ok_add:
  assumes "point_ok s"
  shows "point_ok (s\<lparr>questions := questions s @
            [\<lparr>question_number = int (length (questions s)) + 1, question = q, category = cat,
              answer = None, score = 0, feedback = [], skipped = False\<rparr>]\<rparr>)"
  using assms by (auto simp: point_ok_def nth_append less_Suc_eq)

lemma point_ok_set:
  assumes "point_ok s" "idx < length (questions s)"
    "question_number q' = question_number (questions s ! idx)"
  shows "point_ok (s\<lparr>questions := (questions s)[idx := q'], current_question_index := Suc idx\<rparr>)"
  using assms by (auto simp: point_ok_def nth_list_update)

lemma at_any_point_ok:
  "at_any_point st \<Longrightarrow> st sid = Some s \<Longrightarrow> point_ok s"
proof (induction arbitrary: sid s rule: at_any_point.induct)
  case p_boot
  then show ?case by simp
next
  case (p_create st uuid)
  then show ?case by (auto simp: create_session_def point_ok_new split: if_splits)
next
  case (p_add_question st sid' q cat)
  then show ?case
    by (auto simp: add_question_def Let_def point_ok_add split: option.splits if_splits)
next
  case (p_record_answer st sid' ans sc fb)
  then show ?case
    by (auto simp: record_answer_def Let_def point_ok_set split: option.splits if_splits)
next
  case (p_record_skip st sid')
  then show ?case
    by (auto simp: record_skip_def Let_def point_ok_set split: option.splits if_splits)
next
  case (p_add_to_history st sid' r c)
  then show ?case
    by (auto simp: add_to_history_def point_ok_def split: option.splits if_splits)
next
  case (p_update st kwargs sid')
  show ?case
  proof (cases "sid' = sid")
    case True
    show ?thesis
    proof (cases "st sid")
      case None
      with True p_update.prems show ?thesis by (simp add: update_session_def)
    next
      case (Some s0)
      with True p_update.prems have "s = foldl setattr s0 kwargs"
        by (simp add: update_session_def)
      moreover from Some have "point_ok s0" by (rule p_update.IH)
      ultimately show ?thesis
        using setattr_handler[OF p_update.hyps(2), of s0] by (simp add: point_ok_def)
    qed
  next
    case False
    with p_update.prems have "st sid = Some s"
      by (simp add: update_session_def split: option.splits)
    then show ?thesis by (rule p_update.IH)
  qed
qed

lemma reachable_at_any_point: "reachable st \<Longrightarrow> at_any_point st"
proof (induction rule: reachable.induct)
  case boot
  show ?case by (rule p_boot)
next
  case (upload st uuid filename extracted analysed rag st')
  then show ?case
    by (auto simp: upload_resume_def Let_def create_session_def
        split: option.splits if_splits prod.splits
        intro!: at_any_point.intros(7) p_create[of st uuid, unfolded create_session_def, simplified])
next
  case (start st client now sid st' r)
  then show ?case
    by (auto simp: start_interview_def Let_def split: option.splits if_splits
        intro!: at_any_point.intros)
next
  case (answer st client now sid ans st' r)
  then show ?case
    by (auto simp: submit_answer_def Let_def split: option.splits if_splits
        intro!: at_any_point.intros)
next
  case (skip st client now sid st' r)
  then show ?case
    by (auto simp: skip_question_def Let_def split: option.splits if_splits
        intro!: at_any_point.intros)
next
  case (finish st now sid st' r)
  then show ?case
    by (auto simp: end_interview_def Let_def split: option.splits if_splits
        intro!: at_any_point.intros)
qed


section \<open>Effect of one decision cycle, and the invariant between operations\<close>

lemma submit_answer_effect:
  assumes "st sid = Some s" "started s" "\<not> finished s"
    "current_question_index s < length (questions s)"
  shows "\<exists>st' r. submit_answer client now st sid ans = Inr (st', r)
           \<and> st' = st(sid \<mapsto> live st' sid)
           \<and> started (live st' sid)
           \<and> finished (live st' sid) = should_end (answer_decision client s ans)
           \<and> weak_streak (live st' sid) = (if result_score (answer_decision client s ans) \<le> 5
                                then weak_streak s + 1 else 0)
           \<and> current_topic (live st' sid) = topic (answer_decision client s ans)
           \<and> topic_question_count (live st' sid) =
                 (if topic (answer_decision client s ans) \<noteq> current_topic s then 1
                  else topic_question_count s + 1)
           \<and> current_question_index (live st' sid) = Suc (current_question_index s)
           \<and> length (questions (live st' sid)) = (if should_end (answer_decision client s ans)
                                        then length (questions s) else Suc (length (questions s)))
           \<and> score (questions (live st' sid) ! current_question_index s)
                 = result_score (answer_decision client s ans)
           \<and> answer (questions (live st' sid) ! current_question_index s) = Some ans"
proof -
  from assms(4) have "questions s \<noteq> []" by auto
  with assms show ?thesis
    by (simp add: submit_answer_def get_session_def live_def add_to_history_def record_answer_def
        update_session_def add_question_def Let_def answer_decision_def nth_append)
qed

lemma skip_question_effect:
  assumes "st sid = Some s" "started s" "\<not> finished s"
    "current_question_index s < length (questions s)"
  shows "\<exists>st' r. skip_question client now st sid = Inr (st', r)
           \<and> st' = st(sid \<mapsto> live st' sid)
           \<and> started (live st' sid)
           \<and> finished (live st' sid) = should_end (skip_decision client s)
           \<and> weak_streak (live st' sid) = weak_streak s + 1
           \<and> current_topic (live st' sid) = (if should_end (skip_decision client s) then current_topic s
                                   else topic (skip_decision client s))
           \<and> topic_question_count (live st' sid) =
                 (if should_end (skip_decision client s) then topic_question_count s else 1)
           \<and> current_question_index (live st' sid) = Suc (current_question_index s)
           \<and> length (questions (live st' sid)) = (if should_end (skip_decision client s)
                                        then length (questions s) else Suc (length (questions s)))
           \<and> skipped (questions (live st' sid) ! current_question_index s)"
proof -
  from assms(4) have "questions s \<noteq> []" by auto
  with assms show ?thesis
    by (simp add: skip_question_def get_session_def live_def add_to_history_def record_skip_def
        update_session_def add_question_def Let_def skip_decision_def nth_append)
qed

lemma store_ok_upd: "store_ok st \<Longrightarrow> session_ok x \<Longrightarrow> store_ok (st(sid \<mapsto> x))"
  by (simp add: store_ok_def)

lemma session_ok_new: "session_ok (new_session sid)"
  by (simp add: session_ok_def new_session_def)

lemma upload_ok:
  assumes "store_ok st"
  shows "store_ok (fst (fst (upload_resume uuid filename extracted analysed st rag)))"
proof -
  have a: "store_ok (st(uuid \<mapsto> new_session uuid))"
    using assms session_ok_new by (rule store_ok_upd)
  have "session_ok (foldl setattr (new_session uuid) [Resume_text doc, Resume_summary analysed])" for doc
    by (simp add: session_ok_def new_session_def)
  then have b: "store_ok (st(uuid \<mapsto> foldl setattr (new_session uuid)
                     [Resume_text doc, Resume_summary analysed]))" for doc
    using assms by (intro store_ok_upd)
  show ?thesis
    using assms a b
    by (simp add: upload_resume_def create_session_def update_session_def Let_def
        split: option.splits)
qed

lemma start_ok:
  assumes "store_ok st" "start_interview client now st sid = Inr (st', r)"
  shows "store_ok st'"
proof -
  from assms(2) obtain s where s: "st sid = Some s" "\<not> started s"
    by (auto simp: start_interview_def get_session_def split: option.splits if_splits)
  with assms(1) have q: "questions s = []" "current_question_index s = 0"
    by (auto simp: store_ok_def session_ok_def)
  from assms(2) s q obtain x where "st' = st(sid \<mapsto> x)" "session_ok x"
    by (auto simp: start_interview_def get_session_def add_question_def update_session_def
        add_to_history_def Let_def session_ok_def split: option.splits)
  with assms(1) show ?thesis by (simp add: store_ok_upd)
qed

lemma in_progress_index:
  assumes "store_ok st" "st sid = Some s" "started s" "\<not> finished s"
  shows "Suc (current_question_index s) = length (questions s)"
  using assms by (auto simp: store_ok_def session_ok_def)

lemma answer_ok:
  assumes "store_ok st" "submit_answer client now st sid ans = Inr (st', r)"
  shows "store_ok st'"
proof -
  from assms(2) obtain s where s: "st sid = Some s" "started s" "\<not> finished s"
    by (auto simp: submit_answer_def get_session_def split: option.splits if_splits)
  with assms(1) have idx: "Suc (current_question_index s) = length (questions s)"
    by (rule in_progress_index)
  then have lt: "current_question_index s < length (questions s)" by simp
  from assms(1) s have tq: "1 \<le> topic_question_count s"
    by (auto simp: store_ok_def session_ok_def)
  from submit_answer_effect[of st sid s client now ans, OF s lt] assms(2) idx tq
  have "st' = st(sid \<mapsto> live st' sid)" "session_ok (live st' sid)"
    by (auto simp: session_ok_def)
  with assms(1) show ?thesis using store_ok_upd by metis
qed

lemma skip_ok:
  assumes "store_ok st" "skip_question client now st sid = Inr (st', r)"
  shows "store_ok st'"
proof -
  from assms(2) obtain s where s: "st sid = Some s" "started s" "\<not> finished s"
    by (auto simp: skip_question_def get_session_def split: option.splits if_splits)
  with assms(1) have idx: "Suc (current_question_index s) = length (questions s)"
    by (rule in_progress_index)
  then have lt: "current_question_index s < length (questions s)" by simp
  from assms(1) s have tq: "1 \<le> topic_question_count s"
    by (auto simp: store_ok_def session_ok_def)
  from skip_question_effect[of st sid s client now, OF s lt] assms(2) idx tq
  have "st' = st(sid \<mapsto> live st' sid)" "session_ok (live st' sid)"
    by (auto simp: session_ok_def)
  with assms(1) show ?thesis using store_ok_upd by metis
qed

lemma end_ok:
  assumes "store_ok st" "end_interview now st sid = Inr (st', r)"
  shows "store_ok st'"
proof -
  from assms(2) obtain s where s: "st sid = Some s"
    by (auto simp: end_interview_def get_session_def split: option.splits)
  with assms(1) have "session_ok s" by (simp add: store_ok_def)
  then have "session_ok (s\<lparr>finished := True, end_time := now\<rparr>)"
    by (simp add: session_ok_def)
  with assms s show ?thesis
    by (auto simp: end_interview_def get_session_def update_session_def store_ok_upd)
qed

lemma reachable_store_ok: "reachable st \<Longrightarrow> store_ok st"
proof (induction rule: reachable.induct)
  case boot
  show ?case by (simp add: store_ok_def)
next
  case (upload st uuid filename extracted analysed rag st')
  then show ?case using upload_ok by blast
next
  case (start st client now sid st' r)
  then show ?case using start_ok by blast
next
  case (answer st client now sid ans st' r)
  then show ?case using answer_ok by blast
next
  case (skip st client now sid st' r)
  then show ?case using skip_ok by blast
next
  case (finish st now sid st' r)
  then show ?case using end_ok by blast
qed


section \<open>A concrete run\<close>

lemma demo_upload:
  "fst (fst (upload_resume ''s1'' ''cv.pdf'' (Some ''Python'') empty_resume Map.empty Map.empty))
     = [''s1'' \<mapsto> (new_session ''s1'')\<lparr>resume_text := ''Python''\<rparr>]"
  by (simp add: upload_resume_def endswith_def lower_def lower_char_def strip_def isspace_def
      create_session_def update_session_def new_session_def Let_def)

lemma demo_start:
  "\<exists>r. start_interview No_client 1 [''s1'' \<mapsto> (new_session ''s1'')\<lparr>resume_text := ''Python''\<rparr>] ''s1''
     = Inr (demo_store, r)"
  by (simp add: start_interview_def get_session_def generate_first_question_def
      opening_question_def add_question_def update_session_def add_to_history_def
      new_session_def Let_def demo_store_def demo_session_def demo_question_def)

lemma demo_reachable: "reachable demo_store"
proof -
  have "reachable [''s1'' \<mapsto> (new_session ''s1'')\<lparr>resume_text := ''Python''\<rparr>]"
    using reachable.upload[OF reachable.boot demo_upload] .
  with demo_start show ?thesis by (auto intro: reachable.start)
qed

lemma demo_facts:
  "demo_store ''s1'' = Some demo_session" "started demo_session" "\<not> finished demo_session"
  by (simp_all add: demo_store_def demo_session_def)


section \<open>The interview state machine\<close>

lemma in_progress_lt:
  assumes "reachable st" "st sid = Some s" "started s" "\<not> finished s"
  shows "current_question_index s < length (questions s)"
  using in_progress_index[OF reachable_store_ok[OF assms(1)] assms(2-4)] by simp

lemma in_progress_topic_count:
  assumes "reachable st" "st sid = Some s" "started s"
  shows "1 \<le> topic_question_count s"
  using reachable_store_ok[OF assms(1)] assms(2,3) by (auto simp: store_ok_def session_ok_def)

text \<open>
  Claim C2. In a decision cycle on a session in progress, reached by any sequence of
  operations, an answer sets \<open>weak_streak\<close> to 0 when the score recorded for the answered
  question is greater than 5 and raises it by exactly 1 otherwise; a skip raises it by
  exactly 1. Both handlers return a response on such a session.
\<close>

theorem weak_streak_update:
  assumes "reachable st" "st sid = Some s" "started s" "\<not> finished s"
  shows "(\<exists>st' r. submit_answer client now st sid ans = Inr (st', r)
            \<and> resp_score r = Some (score (questions (live st' sid) ! current_question_index s))
            \<and> weak_streak (live st' sid) =
                 (if 5 < score (questions (live st' sid) ! current_question_index s) then 0
                  else weak_streak s + 1))
         \<and> (\<exists>st' r. skip_question client now st sid = Inr (st', r)
            \<and> weak_streak (live st' sid) = weak_streak s + 1)"
proof -
  have lt: "current_question_index s < length (questions s)"
    using assms by (rule in_progress_lt)
  from lt have ne: "questions s \<noteq> []" by auto
  have A: "\<exists>st' r. submit_answer client now st sid ans = Inr (st', r)
            \<and> resp_score r = Some (score (questions (live st' sid) ! current_question_index s))
            \<and> weak_streak (live st' sid) =
                 (if 5 < score (questions (live st' sid) ! current_question_index s) then 0
                  else weak_streak s + 1)"
    using assms(2-4) lt ne
    by (simp add: submit_answer_def get_session_def live_def add_to_history_def record_answer_def
        update_session_def add_question_def Let_def nth_append)
  have B: "\<exists>st' r. skip_question client now st sid = Inr (st', r)
            \<and> weak_streak (live st' sid) = weak_streak s + 1"
    using skip_question_effect[of st sid s client now, OF assms(2-4) lt] by blast
  from A B show ?thesis by blast
qed

theorem weak_streak_update_witness:
  "reachable demo_store \<and> demo_store ''s1'' = Some demo_session
   \<and> started demo_session \<and> \<not> finished demo_session
   \<and> (\<exists>st' r. submit_answer No_client 2 demo_store ''s1'' ''I write Python'' = Inr (st', r)
          \<and> resp_score r
               = Some (score (questions (live st' ''s1'') ! current_question_index demo_session))
          \<and> weak_streak (live st' ''s1'') =
                (if 5 < score (questions (live st' ''s1'') ! current_question_index demo_session)
                 then 0 else weak_streak demo_session + 1))
   \<and> (\<exists>st' r. skip_question No_client 2 demo_store ''s1'' = Inr (st', r)
          \<and> weak_streak (live st' ''s1'') = weak_streak demo_session + 1)"
  using weak_streak_update[OF demo_reachable demo_facts, of No_client 2 "''I write Python''"]
    demo_reachable demo_facts
  by simp

lemma fallback_never_ends: "\<not> should_end (fallback_next resume n c t)"
  by (simp add: fallback_next_def Let_def)

lemma skip_should_end:
  "should_end (fst (generate_after_skip client resume history n w))
     = (3 \<le> w \<and> 5 \<le> n)"
  by (simp add: generate_after_skip_def forced_end_def fallback_never_ends Let_def
      split: llm.splits llm_reply.splits)

lemma analyze_down:
  "oracle_down client \<Longrightarrow>
     fst (analyze_and_next_question client resume history t c n w) = fallback_next resume n c t"
  by (simp add: analyze_and_next_question_def oracle_down_def Let_def split: llm.splits)

lemma skip_down:
  "oracle_down client \<Longrightarrow> \<not> (3 \<le> w \<and> 5 \<le> n) \<Longrightarrow>
     fst (generate_after_skip client resume history n w) = fallback_next resume n 0 ''new''"
  by (auto simp: generate_after_skip_def oracle_down_def Let_def split: llm.splits)

lemma analyze_should_end:
  "should_end (fst (analyze_and_next_question client resume history t c n w)) \<Longrightarrow>
     \<exists>ask p j. client = Client ask \<and> ask p = Json j \<and> j_should_end j = Some True"
  by (auto simp: analyze_and_next_question_def fallback_never_ends Let_def
      split: llm.splits llm_reply.splits option.splits score_json.splits)

text \<open>
  Claim C1 as stated fails: on a session in progress with a single question asked, an
  oracle reply that sets \<open>should_end\<close> makes the answer handler finish the session.
\<close>

theorem finish_counterexample:
  "reachable demo_store \<and> demo_store ''s1'' = Some demo_session
   \<and> started demo_session \<and> \<not> finished demo_session \<and> length (questions demo_session) = 1
   \<and> (\<exists>st' r. submit_answer (Client (\<lambda>p. Json ending_reply)) 2 demo_store ''s1'' ''Hello''
                  = Inr (st', r)
          \<and> finished (live st' ''s1'') \<and> length (questions (live st' ''s1'')) = 1)"
proof -
  have lt: "current_question_index demo_session < length (questions demo_session)"
    by (simp add: demo_session_def)
  have d: "should_end (answer_decision (Client (\<lambda>p. Json ending_reply)) demo_session ''Hello'')"
    by (simp add: answer_decision_def analyze_and_next_question_def ending_reply_def Let_def)
  from submit_answer_effect[of demo_store "''s1''" demo_session "Client (\<lambda>p. Json ending_reply)" 2
      "''Hello''", OF demo_facts lt] d
  have "\<exists>st' r. submit_answer (Client (\<lambda>p. Json ending_reply)) 2 demo_store ''s1'' ''Hello''
                  = Inr (st', r)
          \<and> finished (live st' ''s1'') \<and> length (questions (live st' ''s1'')) = 1"
    by (auto simp: demo_session_def)
  with demo_reachable demo_facts show ?thesis by (simp add: demo_session_def)
qed

text \<open>
  Claim C1, amended. In a decision cycle on a session in progress, the answer handler
  finishes the session exactly when the decision of the engine has \<open>should_end\<close> set, which
  requires an oracle reply that parsed and signals \<open>should_end\<close>; when the oracle is
  unreachable the fallback decision never finishes the session. The skip handler finishes
  the session exactly when the raised weak streak is at least 3 and at least 5 questions
  have been asked, so a skip never ends an interview of fewer than 5 questions.
\<close>

theorem finish_only_by_decision:
  assumes "reachable st" "st sid = Some s" "started s" "\<not> finished s"
  shows "(\<exists>st' r. submit_answer client now st sid ans = Inr (st', r)
            \<and> resp_is_finished r = finished (live st' sid)
            \<and> finished (live st' sid) = should_end (answer_decision client s ans)
            \<and> (finished (live st' sid) \<longrightarrow>
                 (\<exists>ask p j. client = Client ask \<and> ask p = Json j \<and> j_should_end j = Some True))
            \<and> (oracle_down client \<longrightarrow> \<not> finished (live st' sid)))
         \<and> (\<exists>st' r. skip_question client now st sid = Inr (st', r)
            \<and> resp_is_finished r = finished (live st' sid)
            \<and> finished (live st' sid) = (3 \<le> weak_streak s + 1 \<and> 5 \<le> length (questions s))
            \<and> (length (questions s) < 5 \<longrightarrow> \<not> finished (live st' sid)))"
proof -
  have lt: "current_question_index s < length (questions s)"
    using assms by (rule in_progress_lt)
  from lt have ne: "questions s \<noteq> []" by auto
  obtain st1 r1 where a: "submit_answer client now st sid ans = Inr (st1, r1)"
    and af: "finished (live st1 sid) = should_end (answer_decision client s ans)"
    using submit_answer_effect[of st sid s client now ans, OF assms(2-4) lt] by blast
  have ar: "resp_is_finished r1 = finished (live st1 sid)"
    using a assms(2-4) lt ne
    by (auto simp: submit_answer_def get_session_def live_def add_to_history_def
        record_answer_def update_session_def add_question_def Let_def split: if_splits)
  have a1: "finished (live st1 sid) \<longrightarrow>
             (\<exists>ask p j. client = Client ask \<and> ask p = Json j \<and> j_should_end j = Some True)"
    unfolding af answer_decision_def using analyze_should_end by blast
  have a2: "oracle_down client \<longrightarrow> \<not> finished (live st1 sid)"
    unfolding af answer_decision_def by (simp add: analyze_down fallback_never_ends)
  obtain st2 r2 where b: "skip_question client now st sid = Inr (st2, r2)"
    and bf: "finished (live st2 sid) = should_end (skip_decision client s)"
    using skip_question_effect[of st sid s client now, OF assms(2-4) lt] by blast
  have br: "resp_is_finished r2 = finished (live st2 sid)"
    using b assms(2-4) lt ne
    by (auto simp: skip_question_def get_session_def live_def add_to_history_def
        record_skip_def update_session_def add_question_def Let_def split: if_splits)
  have b1: "finished (live st2 sid) = (3 \<le> weak_streak s + 1 \<and> 5 \<le> length (questions s))"
    unfolding bf skip_decision_def by (rule skip_should_end)
  then have b2: "length (questions s) < 5 \<longrightarrow> \<not> finished (live st2 sid)" by simp
  from a ar af a1 a2 b br b1 b2 show ?thesis by blast
qed

theorem finish_only_by_decision_witness:
  "reachable demo_store \<and> demo_store ''s1'' = Some demo_session
   \<and> started demo_session \<and> \<not> finished demo_session
   \<and> oracle_down No_client \<and> length (questions demo_session) < 5
   \<and> (\<exists>st' r. submit_answer No_client 2 demo_store ''s1'' ''Hello'' = Inr (st', r)
          \<and> \<not> finished (live st' ''s1''))
   \<and> (\<exists>st' r. skip_question No_client 2 demo_store ''s1'' = Inr (st', r)
          \<and> \<not> finished (live st' ''s1''))"
proof -
  have h: "oracle_down No_client" "length (questions demo_session) < 5"
    by (simp_all add: oracle_down_def demo_session_def)
  from finish_only_by_decision[OF demo_reachable demo_facts, of No_client 2 "''Hello''"] h
  have "(\<exists>st' r. submit_answer No_client 2 demo_store ''s1'' ''Hello'' = Inr (st', r)
          \<and> \<not> finished (live st' ''s1''))
   \<and> (\<exists>st' r. skip_question No_client 2 demo_store ''s1'' = Inr (st', r)
          \<and> \<not> finished (live st' ''s1''))"
    by blast
  with demo_reachable demo_facts h show ?thesis by blast
qed

text \<open>
  Claim C3 as stated fails on the skip path: when the oracle names the current topic again
  after a skip, the topic label is unchanged and yet \<open>topic_question_count\<close> is set to 1
  instead of being raised from 1 to 2.
\<close>

theorem topic_count_counterexample:
  "reachable demo_store \<and> demo_store ''s1'' = Some demo_session
   \<and> started demo_session \<and> \<not> finished demo_session
   \<and> (\<exists>st' r. skip_question (Client (\<lambda>p. Json same_topic_reply)) 2 demo_store ''s1''
                  = Inr (st', r)
          \<and> current_topic (live st' ''s1'') = current_topic demo_session
          \<and> topic_question_count (live st' ''s1'') = 1
          \<and> topic_question_count demo_session + 1 = 2)"
proof -
  have lt: "current_question_index demo_session < length (questions demo_session)"
    by (simp add: demo_session_def)
  have d: "topic (skip_decision (Client (\<lambda>p. Json same_topic_reply)) demo_session)
             = ''introduction''"
    "\<not> should_end (skip_decision (Client (\<lambda>p. Json same_topic_reply)) demo_session)"
    by (simp_all add: skip_decision_def generate_after_skip_def same_topic_reply_def Let_def
        get_str_def demo_session_def)
  from skip_question_effect[of demo_store "''s1''" demo_session
      "Client (\<lambda>p. Json same_topic_reply)" 2, OF demo_facts lt] d
  have "\<exists>st' r. skip_question (Client (\<lambda>p. Json same_topic_reply)) 2 demo_store ''s1''
                  = Inr (st', r)
          \<and> current_topic (live st' ''s1'') = current_topic demo_session
          \<and> topic_question_count (live st' ''s1'') = 1"
    by (auto simp: demo_session_def)
  with demo_reachable demo_facts show ?thesis by (simp add: demo_session_def)
qed

text \<open>
  Claim C3, amended. On the answer path the topic of the decision is adopted as
  \<open>current_topic\<close>, and \<open>topic_question_count\<close> becomes 1 exactly when that topic differs
  from the prior one and is raised by 1 otherwise. On the skip path, a cycle that does not
  finish the session adopts the topic of the decision and sets \<open>topic_question_count\<close> to 1
  whether or not the label differs; a cycle that finishes the session leaves both as they
  were.
\<close>

theorem topic_count_update:
  assumes "reachable st" "st sid = Some s" "started s" "\<not> finished s"
  shows "(\<exists>st' r. submit_answer client now st sid ans = Inr (st', r)
            \<and> current_topic (live st' sid) = topic (answer_decision client s ans)
            \<and> topic_question_count (live st' sid) =
                 (if current_topic (live st' sid) \<noteq> current_topic s then 1
                  else topic_question_count s + 1)
            \<and> (topic_question_count (live st' sid) = 1)
                 = (current_topic (live st' sid) \<noteq> current_topic s))
         \<and> (\<exists>st' r. skip_question client now st sid = Inr (st', r)
            \<and> (if finished (live st' sid)
                then current_topic (live st' sid) = current_topic s
                     \<and> topic_question_count (live st' sid) = topic_question_count s
                else current_topic (live st' sid) = topic (skip_decision client s)
                     \<and> topic_question_count (live st' sid) = 1))"
proof -
  have lt: "current_question_index s < length (questions s)"
    using assms by (rule in_progress_lt)
  have tq: "1 \<le> topic_question_count s"
    using assms(1-3) by (rule in_progress_topic_count)
  obtain st1 r1 where a: "submit_answer client now st sid ans = Inr (st1, r1)"
    and at: "current_topic (live st1 sid) = topic (answer_decision client s ans)"
    and ac: "topic_question_count (live st1 sid) =
                 (if topic (answer_decision client s ans) \<noteq> current_topic s then 1
                  else topic_question_count s + 1)"
    using submit_answer_effect[of st sid s client now ans, OF assms(2-4) lt] by blast
  from at ac have ac': "topic_question_count (live st1 sid) =
                 (if current_topic (live st1 sid) \<noteq> current_topic s then 1
                  else topic_question_count s + 1)" by simp
  with tq have ai: "(topic_question_count (live st1 sid) = 1)
                 = (current_topic (live st1 sid) \<noteq> current_topic s)" by simp
  obtain st2 r2 where b: "skip_question client now st sid = Inr (st2, r2)"
    and bf: "finished (live st2 sid) = should_end (skip_decision client s)"
    and bt: "current_topic (live st2 sid) =
               (if should_end (skip_decision client s) then current_topic s
                else topic (skip_decision client s))"
    and bc: "topic_question_count (live st2 sid) =
               (if should_end (skip_decision client s) then topic_question_count s else 1)"
    using skip_question_effect[of st sid s client now, OF assms(2-4) lt] by blast
  from bf bt bc have b': "if finished (live st2 sid)
                then current_topic (live st2 sid) = current_topic s
                     \<and> topic_question_count (live st2 sid) = topic_question_count s
                else current_topic (live st2 sid) = topic (skip_decision client s)
                     \<and> topic_question_count (live st2 sid) = 1" by simp
  from a at ac' ai b b' show ?thesis by blast
qed

theorem topic_count_update_witness:
  "reachable demo_store \<and> demo_store ''s1'' = Some demo_session
   \<and> started demo_session \<and> \<not> finished demo_session
   \<and> (\<exists>st' r. submit_answer No_client 2 demo_store ''s1'' ''Hello'' = Inr (st', r)
          \<and> current_topic (live st' ''s1'') = topic (answer_decision No_client demo_session ''Hello'')
          \<and> (topic_question_count (live st' ''s1'') = 1)
               = (current_topic (live st' ''s1'') \<noteq> current_topic demo_session))
   \<and> (\<exists>st' r. skip_question No_client 2 demo_store ''s1'' = Inr (st', r))"
proof -
  from topic_count_update[OF demo_reachable demo_facts, of No_client 2 "''Hello''"]
  have "(\<exists>st' r. submit_answer No_client 2 demo_store ''s1'' ''Hello'' = Inr (st', r)
          \<and> current_topic (live st' ''s1'') = topic (answer_decision No_client demo_session ''Hello'')
          \<and> (topic_question_count (live st' ''s1'') = 1)
               = (current_topic (live st' ''s1'') \<noteq> current_topic demo_session))
   \<and> (\<exists>st' r. skip_question No_client 2 demo_store ''s1'' = Inr (st', r))"
    by blast
  with demo_reachable demo_facts show ?thesis by blast
qed

text \<open>
  Claim C4. Called with a weak streak of at least 3 and at least 5 questions asked,
  \<open>generate_after_skip\<close> returns the forced-termination decision, with \<open>should_end\<close> set,
  and sends no prompt to the oracle, whatever the client is.
\<close>

theorem after_skip_forced_end:
  assumes "3 \<le> weak" "5 \<le> total_asked"
  shows "should_end (fst (generate_after_skip client resume history total_asked weak))
         \<and> snd (generate_after_skip client resume history total_asked weak) = []
         \<and> fst (generate_after_skip client resume history total_asked weak) = forced_end"
  using assms by (simp add: generate_after_skip_def forced_end_def)

theorem after_skip_forced_end_witness:
  "(3::int) \<le> 3 \<and> (5::nat) \<le> 5
   \<and> should_end (fst (generate_after_skip (Client (\<lambda>p. Json same_topic_reply)) empty_resume [] 5 3))
   \<and> snd (generate_after_skip (Client (\<lambda>p. Json same_topic_reply)) empty_resume [] 5 3) = []
   \<and> should_end (fst (generate_after_skip No_client empty_resume [] 5 3))
   \<and> snd (generate_after_skip No_client empty_resume [] 5 3) = []"
  using after_skip_forced_end[of 3 5 "Client (\<lambda>p. Json same_topic_reply)" empty_resume "[]"]
    after_skip_forced_end[of 3 5 No_client empty_resume "[]"]
  by (simp add: forced_end_def)

text \<open>
  Claim C5 as stated fails: with two questions asked and no oracle, the fallback decision
  for a skip is the same as the one for an ordinary answer, the entry at position 2 of the
  rotation; the same holds when every oracle request raises.
\<close>

theorem skip_fallback_counterexample:
  "fst (generate_after_skip No_client empty_resume [] 2 1)
     = fst (analyze_and_next_question No_client empty_resume [] ''projects'' 1 2 0)
   \<and> next_question (fst (generate_after_skip No_client empty_resume [] 2 1))
     = fst (fallback_pool ''programming'' ''your domain'' ! 2)
   \<and> fst (generate_after_skip (Client (\<lambda>p. Raises)) empty_resume [] 2 1)
     = fst (analyze_and_next_question (Client (\<lambda>p. Raises)) empty_resume [] ''projects'' 1 2 0)"
  by (simp add: generate_after_skip_def analyze_and_next_question_def fallback_next_def
      fallback_pool_def get_list_def empty_resume_def Let_def)

lemma pool_length: "length (fallback_pool s1 s2) = 8"
  by (simp add: fallback_pool_def)

lemma fallback_ignores_topic:
  "fallback_next resume n c t = fallback_next resume n c' t'"
  by (simp add: fallback_next_def)

text \<open>
  Claim C5, amended. When the oracle is unreachable and the skip is below the
  forced-termination threshold, the fallback decision for a skip is the one an ordinary
  answer gets for the same number of questions asked: both take the entry at position
  \<open>min n 7\<close> of the rotation, and neither ends the interview.
\<close>

theorem skip_fallback_same_rotation:
  assumes "oracle_down client" "\<not> (3 \<le> weak \<and> 5 \<le> n)"
  shows "fst (generate_after_skip client resume history n weak)
           = fst (analyze_and_next_question client resume history' cur_topic topic_count n weak')
         \<and> (\<exists>s1 s2. next_question (fst (generate_after_skip client resume history n weak))
                        = fst (fallback_pool s1 s2 ! min n 7))
         \<and> \<not> should_end (fst (generate_after_skip client resume history n weak))"
proof -
  have a: "fst (generate_after_skip client resume history n weak) = fallback_next resume n 0 ''new''"
    using assms by (rule skip_down)
  have b: "fst (analyze_and_next_question client resume history' cur_topic topic_count n weak')
             = fallback_next resume n topic_count cur_topic"
    using assms(1) by (rule analyze_down)
  have c: "fallback_next resume n 0 ''new'' = fallback_next resume n topic_count cur_topic"
    by (rule fallback_ignores_topic)
  have d: "\<exists>s1 s2. next_question (fallback_next resume n 0 ''new'')
                     = fst (fallback_pool s1 s2 ! min n 7)"
    by (simp add: fallback_next_def Let_def pool_length) blast
  from a b c d fallback_never_ends[of resume n 0 "''new''"] show ?thesis by simp
qed

theorem skip_fallback_same_rotation_witness:
  "oracle_down (Client (\<lambda>p. Raises)) \<and> \<not> ((3::int) \<le> 1 \<and> (5::nat) \<le> 2)
   \<and> fst (generate_after_skip (Client (\<lambda>p. Raises)) empty_resume [] 2 1)
       = fst (analyze_and_next_question (Client (\<lambda>p. Raises)) empty_resume [] ''projects'' 1 2 0)
   \<and> \<not> should_end (fst (generate_after_skip (Client (\<lambda>p. Raises)) empty_resume [] 2 1))"
proof -
  have h: "oracle_down (Client (\<lambda>p. Raises))" "\<not> ((3::int) \<le> 1 \<and> (5::nat) \<le> 2)"
    by (simp_all add: oracle_down_def)
  from skip_fallback_same_rotation[OF h, of empty_resume "[]" "[]" "''projects''" 1 0] h
  show ?thesis by blast
qed

text \<open>
  Claim C6. At every point of every sequence of operations, every session has
  \<open>current_question_index \<le> length questions\<close>; \<open>record_answer\<close> and \<open>record_skip\<close> advance
  the index by one when it is strictly below the number of questions and leave it alone
  otherwise, and neither changes the number of questions.
\<close>

theorem index_within_questions:
  assumes "at_any_point st" "st sid = Some s"
  shows "current_question_index s \<le> length (questions s)
         \<and> current_question_index (live (record_answer st sid ans sc fb) sid)
             = (if current_question_index s < length (questions s)
                then Suc (current_question_index s) else current_question_index s)
         \<and> current_question_index (live (record_skip st sid) sid)
             = (if current_question_index s < length (questions s)
                then Suc (current_question_index s) else current_question_index s)
         \<and> length (questions (live (record_answer st sid ans sc fb) sid)) = length (questions s)
         \<and> length (questions (live (record_skip st sid) sid)) = length (questions s)"
proof -
  from assms have "point_ok s" by (rule at_any_point_ok)
  then have "current_question_index s \<le> length (questions s)" by (simp add: point_ok_def)
  moreover have "current_question_index (live (record_answer st sid ans sc fb) sid)
             = (if current_question_index s < length (questions s)
                then Suc (current_question_index s) else current_question_index s)"
    "length (questions (live (record_answer st sid ans sc fb) sid)) = length (questions s)"
    using assms(2) by (auto simp: record_answer_def live_def Let_def)
  moreover have "current_question_index (live (record_skip st sid) sid)
             = (if current_question_index s < length (questions s)
                then Suc (current_question_index s) else current_question_index s)"
    "length (questions (live (record_skip st sid) sid)) = length (questions s)"
    using assms(2) by (auto simp: record_skip_def live_def Let_def)
  ultimately show ?thesis by simp
qed

lemma demo_answered_point:
  "at_any_point (record_answer demo_store ''s1'' ''Hello'' 5 ''ok'')"
  by (intro p_record_answer reachable_at_any_point demo_reachable)

theorem index_within_questions_witness:
  "at_any_point (record_answer demo_store ''s1'' ''Hello'' 5 ''ok'')
   \<and> record_answer demo_store ''s1'' ''Hello'' 5 ''ok'' ''s1''
        = Some (live (record_answer demo_store ''s1'' ''Hello'' 5 ''ok'') ''s1'')
   \<and> current_question_index (live (record_answer demo_store ''s1'' ''Hello'' 5 ''ok'') ''s1'')
        \<le> length (questions (live (record_answer demo_store ''s1'' ''Hello'' 5 ''ok'') ''s1''))
   \<and> current_question_index (live (record_answer demo_store ''s1'' ''Hello'' 5 ''ok'') ''s1'') = 1
   \<and> current_question_index
        (live (record_skip (record_answer demo_store ''s1'' ''Hello'' 5 ''ok'') ''s1'') ''s1'') = 1"
proof -
  let ?st = "record_answer demo_store ''s1'' ''Hello'' 5 ''ok''"
  have h: "?st ''s1'' = Some (live ?st ''s1'')"
    by (simp add: record_answer_def live_def demo_store_def demo_session_def Let_def)
  have v: "current_question_index (live ?st ''s1'') = 1" "length (questions (live ?st ''s1'')) = 1"
    by (simp_all add: record_answer_def live_def demo_store_def demo_session_def Let_def)
  from index_within_questions[OF demo_answered_point h, of "''Hello''" 5 "''ok''"] v h
    demo_answered_point
  show ?thesis by simp
qed

text \<open>
  Claim C9. At every point of every sequence of operations, the record at position \<open>i\<close> of
  a session's question list has \<open>question_number = i + 1\<close>: the ordinals are 1, 2, ... in
  order, without duplicates, and \<open>add_question\<close> returns \<open>length questions + 1\<close>.
\<close>

theorem question_numbers_consecutive:
  assumes "at_any_point st" "st sid = Some s"
  shows "(\<forall>i<length (questions s). question_number (questions s ! i) = int i + 1)
         \<and> map question_number (questions s) = map (\<lambda>i. int i + 1) [0..<length (questions s)]
         \<and> distinct (map question_number (questions s))
         \<and> snd (add_question st sid q cat) = int (length (questions s)) + 1"
proof -
  from assms have "point_ok s" by (rule at_any_point_ok)
  then have n: "\<forall>i<length (questions s). question_number (questions s ! i) = int i + 1"
    by (simp add: point_ok_def)
  then have m: "map question_number (questions s) = map (\<lambda>i. int i + 1) [0..<length (questions s)]"
    by (intro nth_equalityI) simp_all
  have "distinct (map (\<lambda>i. int i + 1) [0..<length (questions s)])"
    by (simp add: distinct_map inj_on_def)
  with m have d: "distinct (map question_number (questions s))" by simp
  have a: "snd (add_question st sid q cat) = int (length (questions s)) + 1"
    using assms(2) by (simp add: add_question_def Let_def)
  from n m d a show ?thesis by blast
qed

theorem question_numbers_consecutive_witness:
  "at_any_point demo_store \<and> demo_store ''s1'' = Some demo_session
   \<and> map question_number (questions demo_session) = [1]
   \<and> snd (add_question demo_store ''s1'' ''What is an API?'' ''technical'') = 2"
proof -
  have p: "at_any_point demo_store" using demo_reachable by (rule reachable_at_any_point)
  from question_numbers_consecutive[OF p demo_facts(1), of "''What is an API?''" "''technical''"]
  have "map question_number (questions demo_session)
          = map (\<lambda>i. int i + 1) [0..<length (questions demo_session)]"
    "snd (add_question demo_store ''s1'' ''What is an API?'' ''technical'')
          = int (length (questions demo_session)) + 1"
    by blast+
  then have "map question_number (questions demo_session) = [1]"
    "snd (add_question demo_store ''s1'' ''What is an API?'' ''technical'') = 2"
    by (simp_all add: demo_session_def)
  with p demo_facts(1) show ?thesis by simp
qed

end
